theory Spec2Isabelle
  imports Complex_Main
begin

section \<open>Configuration (config.js)\<close>

definition MAX_ATTEMPTS :: int where
  "MAX_ATTEMPTS = 5"

definition QUEUE_COOLDOWN_MS :: nat where
  "QUEUE_COOLDOWN_MS = 5000"

text \<open>
  The two daily caps are read from the process environment with \<^verbatim>\<open>parseInt\<close>
  (defaults 10 and 50), so they are parameters of a cycle.
\<close>

record config =
  MAX_DOWNLOADS_PER_USER_PER_DAY :: int
  MAX_DOWNLOADS_PER_DAY :: int

definition default_config :: config where
  "default_config = \<lparr>MAX_DOWNLOADS_PER_USER_PER_DAY = 10, MAX_DOWNLOADS_PER_DAY = 50\<rparr>"

section \<open>Fuzzy matching (index.js: normalizeText, wordOverlap, isGoodMatch)\<close>

text \<open>
  A JavaScript string is modelled as a \<^typ>\<open>string\<close> whose characters are the code
  units 0..255 (Latin-1). On this range the character classes of the regular
  expressions are:
  \<^item> \<^verbatim>\<open>\s\<close>: tab, line feed, vertical tab, form feed, carriage return, space, U+00A0;
  \<^item> \<^verbatim>\<open>\w\<close>: ASCII letters, digits and the underscore;
  \<^item> \<^verbatim>\<open>.\<close>: every character but line feed and carriage return.
\<close>

definition is_space :: "char \<Rightarrow> bool" where
  "is_space c = (c = CHR 0x09 \<or> c = CHR 0x0A \<or> c = CHR 0x0B \<or> c = CHR 0x0C
     \<or> c = CHR 0x0D \<or> c = CHR 0x20 \<or> c = CHR 0xA0)"

definition is_line_terminator :: "char \<Rightarrow> bool" where
  "is_line_terminator c = (c = CHR 0x0A \<or> c = CHR 0x0D)"

definition is_word :: "char \<Rightarrow> bool" where
  "is_word c = (let n = (of_char c :: nat) in
     (48 \<le> n \<and> n \<le> 57) \<or> (65 \<le> n \<and> n \<le> 90) \<or> n = 95 \<or> (97 \<le> n \<and> n \<le> 122))"

text \<open>\<^verbatim>\<open>String.prototype.toLowerCase\<close> on one Latin-1 code unit.\<close>

definition to_lower :: "char \<Rightarrow> char" where
  "to_lower c = (let n = (of_char c :: nat) in
     if (65 \<le> n \<and> n \<le> 90) \<or> (192 \<le> n \<and> n \<le> 222 \<and> n \<noteq> 215)
     then char_of (n + 32) else c)"

definition toLowerCase :: "string \<Rightarrow> string" where
  "toLowerCase s = map to_lower s"

text \<open>
  \<^verbatim>\<open>.replace(/\(.*?\)/g, '')\<close>: \<open>close_paren\<close> looks, after an opening
  parenthesis, for the nearest closing one on the same line and returns what follows it.
\<close>

fun close_paren :: "string \<Rightarrow> string option" where
  "close_paren [] = None"
| "close_paren (c # cs) =
     (if c = CHR '')'' then Some cs
      else if is_line_terminator c then None
      else close_paren cs)"

lemma close_paren_length: "close_paren cs = Some r \<Longrightarrow> length r < length cs"
  by (induction cs) (auto split: if_splits)

function strip_parens :: "string \<Rightarrow> string" where
  "strip_parens [] = []"
| "strip_parens (c # cs) =
     (if c = CHR ''(''
      then (case close_paren cs of
              Some r \<Rightarrow> strip_parens r
            | None \<Rightarrow> c # strip_parens cs)
      else c # strip_parens cs)"
  by pat_completeness auto
termination
  by (relation "measure length") (auto dest: close_paren_length)

text \<open>
  \<^verbatim>\<open>.replace(/:\s*a novel$/i, '')\<close>: the first colon followed by white space and
  then exactly \<^verbatim>\<open>a novel\<close> (in any case) up to the end of the string.
\<close>

fun strip_a_novel :: "string \<Rightarrow> string" where
  "strip_a_novel [] = []"
| "strip_a_novel (c # cs) =
     (if c = CHR '':'' \<and> map to_lower (dropWhile is_space cs) = ''a novel'' then []
      else c # strip_a_novel cs)"

text \<open>\<^verbatim>\<open>.replace(/[^\w\s]/g, '')\<close>\<close>

definition strip_punct :: "string \<Rightarrow> string" where
  "strip_punct s = filter (\<lambda>c. is_word c \<or> is_space c) s"

text \<open>\<^verbatim>\<open>.replace(/\s+/g, ' ')\<close>\<close>

function collapse_ws :: "string \<Rightarrow> string" where
  "collapse_ws [] = []"
| "collapse_ws (c # cs) =
     (if is_space c then CHR '' '' # collapse_ws (dropWhile is_space cs)
      else c # collapse_ws cs)"
  by pat_completeness auto
termination
  by (relation "measure length") (auto simp: less_Suc_eq_le length_dropWhile_le)

definition trim :: "string \<Rightarrow> string" where
  "trim s = rev (dropWhile is_space (rev (dropWhile is_space s)))"

text \<open>The argument is \<open>None\<close> for \<^verbatim>\<open>null\<close> and \<^verbatim>\<open>undefined\<close>.\<close>

definition normalizeText :: "string option \<Rightarrow> string" where
  "normalizeText str =
     (case str of
        None \<Rightarrow> []
      | Some s \<Rightarrow>
          if s = [] then []
          else trim (collapse_ws (strip_punct (strip_a_novel (strip_parens (toLowerCase s))))))"

text \<open>\<^verbatim>\<open>s.split(sep)\<close> for a one-character separator.\<close>

fun js_split :: "char \<Rightarrow> string \<Rightarrow> string list" where
  "js_split sep [] = [[]]"
| "js_split sep (c # cs) =
     (if c = sep then [] # js_split sep cs
      else (case js_split sep cs of
              w # ws \<Rightarrow> (c # w) # ws
            | [] \<Rightarrow> [[c]]))"

text \<open>
  \<^verbatim>\<open>new Set(array)\<close>: the distinct elements in the order of their first
  occurrence; \<open>size\<close> is the length of that list and \<open>has\<close> is membership.
\<close>

fun Set_add :: "'a list \<Rightarrow> 'a list \<Rightarrow> 'a list" where
  "Set_add acc [] = acc"
| "Set_add acc (x # xs) = Set_add (if x \<in> set acc then acc else acc @ [x]) xs"

definition new_Set :: "'a list \<Rightarrow> 'a list" where
  "new_Set xs = Set_add [] xs"

definition words :: "string \<Rightarrow> string list" where
  "words s = filter (\<lambda>w. w \<noteq> []) (js_split CHR '' '' s)"

text \<open>
  The quotient \<^verbatim>\<open>matches / smaller.size\<close> is a quotient of two set sizes; it is
  modelled as the exact rational. Both sizes are bounded by the length of a string,
  far below \<open>2^53\<close>, where the double nearest to the quotient compares with the
  literal \<^verbatim>\<open>0.7\<close> as the rational does with \<open>7/10\<close>.
\<close>

definition wordOverlap :: "string option \<Rightarrow> string option \<Rightarrow> rat" where
  "wordOverlap a b =
     (let wordsA = new_Set (words (normalizeText a));
          wordsB = new_Set (words (normalizeText b))
      in if length wordsA = 0 \<or> length wordsB = 0 then 0
         else let (smaller, larger) =
                    (if length wordsA \<le> length wordsB then (wordsA, wordsB) else (wordsB, wordsA));
                  matches = length (filter (\<lambda>w. w \<in> set larger) smaller)
              in of_nat matches / of_nat (length smaller))"

text \<open>\<^verbatim>\<open>haystack.includes(needle)\<close>\<close>

fun str_includes :: "string \<Rightarrow> string \<Rightarrow> bool" where
  "str_includes [] needle = (needle = [])"
| "str_includes (c # cs) needle = (take (length needle) (c # cs) = needle \<or> str_includes cs needle)"

text \<open>A JavaScript string is truthy when it is neither null nor empty.\<close>

definition truthy :: "string option \<Rightarrow> bool" where
  "truthy s = (case s of None \<Rightarrow> False | Some x \<Rightarrow> x \<noteq> [])"

definition isGoodMatch :: "string option \<Rightarrow> string option \<Rightarrow> string option \<Rightarrow> string option \<Rightarrow> bool" where
  "isGoodMatch expectedTitle expectedAuthor resultTitle resultAuthor =
     (let titleScore = wordOverlap expectedTitle resultTitle
      in if titleScore < 7 / 10 then False
         else if truthy expectedAuthor then
           (let expectedParts = filter (\<lambda>w. length w > 2)
                                  (js_split CHR '' '' (normalizeText expectedAuthor));
                resultAuthorNorm = normalizeText resultAuthor;
                authorHit = list_ex (\<lambda>part. str_includes resultAuthorNorm part) expectedParts
            in if \<not> authorHit then False else True)
         else True)"

subsection \<open>The matching policy as the specification words it\<close>



text \<open>The tokens of length above 2 of a normalized author.\<close>

definition author_tokens :: "string option \<Rightarrow> string set" where
  "author_tokens a = {w \<in> set (words (normalizeText a)). length w > 2}"

section \<open>The store (db.js)\<close>

text \<open>
  The three tables of \<^verbatim>\<open>initDb\<close>. A table is the list of its rows in rowid
  order. \<^verbatim>\<open>CURRENT_TIMESTAMP\<close> and \<^verbatim>\<open>'now'\<close> are the clock, in seconds of UTC,
  passed to each statement; \<^verbatim>\<open>date(t)\<close> is the number of the day.
\<close>

datatype status = Pending | Downloaded | Failed

type_synonym timestamp = nat

definition date :: "timestamp \<Rightarrow> nat" where
  "date t = t div 86400"

record user =
  uid :: nat
  name :: string
  goodreads_id :: string
  download_path :: string
  email :: "string option"

record book =
  bid :: nat
  goodreads_book_id :: "string option"
  isbn :: "string option"
  title :: "string option"
  author :: "string option"
  status :: status
  attempts :: int
  file_path :: "string option"
  added_at :: timestamp
  updated_at :: timestamp
  downloaded_at :: "timestamp option"

record user_book =
  user_id :: nat
  book_id :: nat
  is_notified :: bool

text \<open>\<open>books_seq\<close> is the AUTOINCREMENT counter of the books table.\<close>

record store =
  users :: "user list"
  books :: "book list"
  user_books :: "user_book list"
  books_seq :: nat

definition getUsers :: "store \<Rightarrow> user list" where
  "getUsers st = users st"

definition has_key :: "string \<Rightarrow> book \<Rightarrow> bool" where
  "has_key key b = (goodreads_book_id b = Some key)"

text \<open>\<^verbatim>\<open>COALESCE(excluded.x, books.x)\<close>\<close>

definition COALESCE :: "'a option \<Rightarrow> 'a option \<Rightarrow> 'a option" where
  "COALESCE x y = (case x of Some v \<Rightarrow> Some v | None \<Rightarrow> y)"

definition upsert_row :: "timestamp \<Rightarrow> string option \<Rightarrow> string option \<Rightarrow> string option \<Rightarrow> book \<Rightarrow> book" where
  "upsert_row now i t a b =
     b\<lparr>isbn := COALESCE i (isbn b), title := COALESCE t (title b),
       author := COALESCE a (author b), updated_at := now\<rparr>"

definition new_book :: "nat \<Rightarrow> timestamp \<Rightarrow> string \<Rightarrow> string option \<Rightarrow> string option \<Rightarrow> string option \<Rightarrow> book" where
  "new_book n now key i t a =
     \<lparr>bid = n, goodreads_book_id = Some key, isbn = i, title = t, author = a,
      status = Pending, attempts = 0, file_path = None,
      added_at = now, updated_at = now, downloaded_at = None\<rparr>"

definition next_rowid :: "store \<Rightarrow> nat" where
  "next_rowid st = Suc (foldr max (map bid (books st)) (books_seq st))"

text \<open>
  \<^verbatim>\<open>INSERT INTO books ... ON CONFLICT(goodreads_book_id) DO UPDATE SET ...\<close>,
  called by \<^verbatim>\<open>syncRSS\<close> with a non-null key.
\<close>

definition upsertBookByGoodreadsId ::
  "timestamp \<Rightarrow> string \<Rightarrow> string option \<Rightarrow> string option \<Rightarrow> string option \<Rightarrow> store \<Rightarrow> store" where
  "upsertBookByGoodreadsId now key i t a st =
     (if list_ex (has_key key) (books st)
      then st\<lparr>books := map (\<lambda>b. if has_key key b then upsert_row now i t a b else b) (books st)\<rparr>
      else st\<lparr>books := books st @ [new_book (next_rowid st) now key i t a],
              books_seq := next_rowid st\<rparr>)"

definition getBookByGoodreadsId :: "string \<Rightarrow> store \<Rightarrow> nat option" where
  "getBookByGoodreadsId key st = map_option bid (find (has_key key) (books st))"

text \<open>\<^verbatim>\<open>INSERT OR IGNORE INTO user_books (user_id, book_id)\<close>\<close>

definition linkUserBook :: "nat \<Rightarrow> nat \<Rightarrow> store \<Rightarrow> store" where
  "linkUserBook u b st =
     (if list_ex (\<lambda>l. user_id l = u \<and> book_id l = b) (user_books st) then st
      else st\<lparr>user_books := user_books st @ [\<lparr>user_id = u, book_id = b, is_notified = False\<rparr>]\<rparr>)"

text \<open>
  \<^verbatim>\<open>ORDER BY attempts ASC LIMIT 1\<close>: a row of least \<open>attempts\<close>; among several,
  the model takes the first in rowid order.
\<close>

fun first_min_attempts :: "book list \<Rightarrow> book option" where
  "first_min_attempts [] = None"
| "first_min_attempts (b # bs) =
     (case first_min_attempts bs of
        None \<Rightarrow> Some b
      | Some m \<Rightarrow> if attempts b \<le> attempts m then Some b else Some m)"

definition getNextPending :: "int \<Rightarrow> store \<Rightarrow> book option" where
  "getNextPending maxAttempts st =
     first_min_attempts (filter (\<lambda>b. status b = Pending \<and> attempts b < maxAttempts) (books st))"

text \<open>The same query with \<^verbatim>\<open>AND id NOT IN (...)\<close>, prepared in \<^verbatim>\<open>processQueue\<close>.\<close>

definition getNextPendingNotIn :: "int \<Rightarrow> nat list \<Rightarrow> store \<Rightarrow> book option" where
  "getNextPendingNotIn maxAttempts skipped st =
     first_min_attempts
       (filter (\<lambda>b. status b = Pending \<and> attempts b < maxAttempts \<and> bid b \<notin> set skipped) (books st))"

definition getUsersForBook :: "nat \<Rightarrow> store \<Rightarrow> user list" where
  "getUsersForBook b st =
     concat (map (\<lambda>u. map (\<lambda>l. u) (filter (\<lambda>l. user_id l = uid u \<and> book_id l = b) (user_books st)))
                 (users st))"

definition update_where_id :: "nat \<Rightarrow> (book \<Rightarrow> book) \<Rightarrow> store \<Rightarrow> store" where
  "update_where_id i f st = st\<lparr>books := map (\<lambda>b. if bid b = i then f b else b) (books st)\<rparr>"

definition incrementAttempts :: "timestamp \<Rightarrow> nat \<Rightarrow> store \<Rightarrow> store" where
  "incrementAttempts now i st =
     update_where_id i (\<lambda>b. b\<lparr>attempts := attempts b + 1, updated_at := now\<rparr>) st"

definition markDownloaded :: "timestamp \<Rightarrow> string \<Rightarrow> nat \<Rightarrow> store \<Rightarrow> store" where
  "markDownloaded now filename i st =
     update_where_id i
       (\<lambda>b. b\<lparr>status := Downloaded, file_path := Some filename,
              downloaded_at := Some now, updated_at := now\<rparr>) st"

definition markFailed :: "timestamp \<Rightarrow> nat \<Rightarrow> store \<Rightarrow> store" where
  "markFailed now i st = update_where_id i (\<lambda>b. b\<lparr>status := Failed, updated_at := now\<rparr>) st"

definition downloaded_on :: "nat \<Rightarrow> book \<Rightarrow> bool" where
  "downloaded_on d b =
     (status b = Downloaded \<and> (case downloaded_at b of None \<Rightarrow> False | Some t \<Rightarrow> date t = d))"

definition countDownloadsToday :: "timestamp \<Rightarrow> store \<Rightarrow> nat" where
  "countDownloadsToday now st = length (filter (downloaded_on (date now)) (books st))"

definition countUserDownloadsToday :: "timestamp \<Rightarrow> nat \<Rightarrow> store \<Rightarrow> nat" where
  "countUserDownloadsToday now u st =
     length (concat (map (\<lambda>b. filter (\<lambda>l. book_id l = bid b \<and> user_id l = u) (user_books st))
                         (filter (downloaded_on (date now)) (books st))))"

text \<open>
  The migration of \<^verbatim>\<open>initDb\<close> on a database created before the column existed:
  \<^verbatim>\<open>ALTER TABLE books ADD COLUMN downloaded_at\<close> followed by
  \<^verbatim>\<open>UPDATE books SET downloaded_at = updated_at WHERE status = 'downloaded' AND
  downloaded_at IS NULL\<close>.
\<close>

definition migrate_downloaded_at :: "store \<Rightarrow> store" where
  "migrate_downloaded_at st =
     st\<lparr>books := map (\<lambda>b. if status b = Downloaded \<and> downloaded_at b = None
                           then b\<lparr>downloaded_at := Some (updated_at b)\<rparr> else b) (books st)\<rparr>"

text \<open>
  The reset-limits script: \<^verbatim>\<open>UPDATE books SET downloaded_at = date('now', '-1 day')
  WHERE status = 'downloaded' AND date(downloaded_at) = date('now')\<close>. The new value
  is the start of the previous day. The clock of the model starts at day 0, which
  has no previous day; the statement is used from day 1 on.
\<close>

definition reset_limits :: "timestamp \<Rightarrow> store \<Rightarrow> store" where
  "reset_limits now st =
     st\<lparr>books := map (\<lambda>b. if downloaded_on (date now) b
                           then b\<lparr>downloaded_at := Some (86400 * (date now - 1))\<rparr> else b)
                     (books st)\<rparr>"

section \<open>Files and downloads (utils.js, index.js: downloadBook)\<close>

text \<open>The file system: the size in bytes of each file that exists.\<close>

type_synonym fs = "string \<Rightarrow> nat option"

datatype error =
    NoSearchTerm
  | BookNotFound
  | BrowserDownloadFailed
  | RequestFailed
  | StreamFailed
  | DownloadTooSmall nat
  | CopyFailed

definition or_else :: "string option \<Rightarrow> string \<Rightarrow> string" where
  "or_else s d = (if truthy s then the s else d)"

definition sanitizeFilename :: "string \<Rightarrow> string" where
  "sanitizeFilename n =
     take 200 (trim (collapse_ws (filter (\<lambda>c. c \<notin> set (''<>:/|?*'' @ [CHR 0x22, CHR 0x5C])) n)))"

definition join :: "string \<Rightarrow> string \<Rightarrow> string" where
  "join dir f = dir @ ''/'' @ f"

definition basename :: "string \<Rightarrow> string" where
  "basename p = rev (takeWhile (\<lambda>c. c \<noteq> CHR ''/'') (rev p))"

text \<open>Node's \<^verbatim>\<open>path.extname\<close> on a path that does not end in a slash.\<close>

definition extname :: "string \<Rightarrow> string" where
  "extname p =
     (let base = basename p;
          ext = CHR ''.'' # rev (takeWhile (\<lambda>c. c \<noteq> CHR ''.'') (rev base))
      in if CHR ''.'' \<notin> set base \<or> length ext = length base \<or> base = ''..'' then []
         else ext)"

definition safe_title :: "book \<Rightarrow> string" where
  "safe_title job =
     sanitizeFilename (or_else (author job) ''Unknown'' @ '' - '' @ or_else (title job) ''Unknown'')"

text \<open>
  What the network does during one call of \<^verbatim>\<open>downloadBook\<close>:
  \<^item> \<open>browser_result\<close>: \<^verbatim>\<open>downloadWithBrowser\<close> throws (\<open>None\<close>) or has saved a
    file of the given size and returns its path;
  \<^item> \<open>http_result\<close>: \<^verbatim>\<open>axios.get\<close> throws (\<open>None\<close>) or answers; the answer
    carries the value of \<^verbatim>\<open>getFileExtension(response)\<close> and the number of bytes
    the body streams (\<open>None\<close> when the stream breaks).
\<close>

record download_env =
  browser_result :: "(string \<times> nat) option"
  http_result :: "(string \<times> nat option) option"

definition downloadBook ::
  "string \<Rightarrow> download_env \<Rightarrow> string \<Rightarrow> book \<Rightarrow> fs \<Rightarrow> (error + string \<times> string) \<times> fs" where
  "downloadBook tempDir env url job files =
     (let safeTitle = safe_title job
      in if str_includes url ''/fast_download/'' then
           (case browser_result env of
              None \<Rightarrow> (Inl BrowserDownloadFailed, files)
            | Some (downloadedPath, nbytes) \<Rightarrow>
                let files1 = files(downloadedPath \<mapsto> nbytes)
                in if nbytes < 1024 then
                     (Inl (DownloadTooSmall nbytes), files1(downloadedPath := None))
                   else
                     let e = toLowerCase (extname downloadedPath);
                         extension = (if e = [] then ''.epub'' else e);
                         tempPath = join tempDir (safeTitle @ extension)
                     in if downloadedPath \<noteq> tempPath
                        then (Inr (tempPath, extension),
                              files1(downloadedPath := None, tempPath \<mapsto> nbytes))
                        else (Inr (tempPath, extension), files1))
         else
           (case http_result env of
              None \<Rightarrow> (Inl RequestFailed, files)
            | Some (extension, body) \<Rightarrow>
                let tempPath = join tempDir (safeTitle @ extension)
                in (case body of
                      None \<Rightarrow> (Inl StreamFailed, files(tempPath \<mapsto> 0))
                    | Some nbytes \<Rightarrow>
                        let files1 = files(tempPath \<mapsto> nbytes)
                        in if nbytes < 1024 then
                             (Inl (DownloadTooSmall nbytes), files1(tempPath := None))
                           else (Inr (tempPath, extension), files1))))"

section \<open>Queue processing (index.js: processQueue)\<close>

text \<open>
  What the outside world does during one processed item:
  \<^item> \<open>search_result\<close>: the value \<^verbatim>\<open>findBookOnAnna\<close> returns (\<open>None\<close> for null);
  \<^item> \<open>download\<close>: the network during \<^verbatim>\<open>downloadBook\<close>;
  \<^item> \<open>copy_fails u\<close>: \<^verbatim>\<open>mkdirSync\<close>, \<^verbatim>\<open>copyFileSync\<close> or \<^verbatim>\<open>fixOwnership\<close>
    throws for the folder of user \<open>u\<close>;
  \<^item> \<open>unlink_fails\<close>: \<^verbatim>\<open>unlinkSync(tempPath)\<close> throws;
  \<^item> \<open>elapsed\<close>: the seconds that pass between the increment of the attempts and the
    statement that records the outcome.
  The clock only moves forward.
\<close>

record attempt_env =
  search_result :: "string option"
  download :: download_env
  copy_fails :: "nat \<Rightarrow> bool"
  unlink_fails :: bool
  elapsed :: nat

text \<open>\<^verbatim>\<open>downloadedPerUser\<close>: a Map from user id to the user and the books delivered.\<close>

type_synonym downloaded_map = "(nat \<times> user \<times> (string option \<times> string option) list) list"

record queue_state =
  db :: store
  files :: fs
  clock :: timestamp
  processed :: nat
  succeeded :: nat
  failed :: nat
  skippedLimit :: nat
  skippedBookIds :: "nat list"
  downloadedPerUser :: downloaded_map
  rateLimitedUserIds :: "nat list"

text \<open>\<^verbatim>\<open>Set.prototype.add\<close> on a Set kept as the list of its elements.\<close>

definition Set_insert :: "'a \<Rightarrow> 'a list \<Rightarrow> 'a list" where
  "Set_insert x xs = (if x \<in> set xs then xs else xs @ [x])"

text \<open>The body of the loop over \<^verbatim>\<open>stmts.getUsers.all()\<close> at the start of a cycle.\<close>

definition limit_check :: "config \<Rightarrow> timestamp \<Rightarrow> store \<Rightarrow> nat list \<Rightarrow> user \<Rightarrow> nat list" where
  "limit_check cfg now st limited u =
     (let userCount = countUserDownloadsToday now (uid u) st
      in if int userCount \<ge> MAX_DOWNLOADS_PER_USER_PER_DAY cfg then Set_insert (uid u) limited
         else limited)"

text \<open>The body of the refresh loop over \<^verbatim>\<open>eligibleUsers\<close> after a success.\<close>

definition limit_refresh :: "config \<Rightarrow> timestamp \<Rightarrow> store \<Rightarrow> nat list \<Rightarrow> user \<Rightarrow> nat list" where
  "limit_refresh cfg now st limited u =
     (if uid u \<notin> set limited then limit_check cfg now st limited u else limited)"

fun join_with :: "string \<Rightarrow> string list \<Rightarrow> string" where
  "join_with sep [] = []"
| "join_with sep [x] = x"
| "join_with sep (x # y # ys) = x @ sep @ join_with sep (y # ys)"

definition search_term :: "book \<Rightarrow> string" where
  "search_term job =
     (let cleanTitle = trim (strip_parens (or_else (title job) []));
          parts = filter truthy [Some cleanTitle, author job]
      in trim (join_with '' '' (map the parts)))"

text \<open>
  The copy loop. It stops at the first destination whose copy throws; the files
  already copied stay.
\<close>

fun copy_to_users :: "(nat \<Rightarrow> bool) \<Rightarrow> string \<Rightarrow> string \<Rightarrow> user list \<Rightarrow> fs \<Rightarrow> bool \<times> fs" where
  "copy_to_users fails tempPath filename [] fls = (True, fls)"
| "copy_to_users fails tempPath filename (u # us) fls =
     (case fls tempPath of
        None \<Rightarrow> (False, fls)
      | Some n \<Rightarrow>
          if fails (uid u) then (False, fls)
          else copy_to_users fails tempPath filename us
                 (fls(join (download_path u) filename \<mapsto> n)))"

definition track ::
  "string option \<times> string option \<Rightarrow> downloaded_map \<Rightarrow> user \<Rightarrow> downloaded_map" where
  "track entry m u =
     (if list_ex (\<lambda>(k, usr, bs). k = uid u) m
      then map (\<lambda>(k, usr, bs). if k = uid u then (k, usr, bs @ [entry]) else (k, usr, bs)) m
      else m @ [(uid u, u, [entry])])"

text \<open>
  The \<^verbatim>\<open>try\<close> block of one item: the error thrown, if any, and the state at
  that point (what was written before a throw stays written).
\<close>

definition try_attempt ::
  "config \<Rightarrow> string \<Rightarrow> attempt_env \<Rightarrow> book \<Rightarrow> user list \<Rightarrow> queue_state
     \<Rightarrow> error option \<times> queue_state" where
  "try_attempt cfg tempDir e job eligibleUsers s =
     (let s1 = s\<lparr>db := incrementAttempts (clock s) (bid job) (db s)\<rparr>;
          searchTerm = search_term job
      in if searchTerm = [] then (Some NoSearchTerm, s1)
         else
           let s2 = s1\<lparr>clock := clock s1 + elapsed e\<rparr>
           in (case search_result e of
                 None \<Rightarrow> (Some BookNotFound, s2)
               | Some downloadUrl \<Rightarrow>
                   (case downloadBook tempDir (download e) downloadUrl job (files s2) of
                      (Inl err, files1) \<Rightarrow> (Some err, s2\<lparr>files := files1\<rparr>)
                    | (Inr (tempPath, extension), files1) \<Rightarrow>
                        let filename = safe_title job @ extension
                        in (case copy_to_users (copy_fails e) tempPath filename eligibleUsers files1 of
                              (False, files2) \<Rightarrow> (Some CopyFailed, s2\<lparr>files := files2\<rparr>)
                            | (True, files2) \<Rightarrow>
                                let files3 = (if unlink_fails e then files2
                                              else files2(tempPath := None));
                                    s3 = s2\<lparr>files := files3,
                                            db := markDownloaded (clock s2) filename (bid job) (db s2),
                                            succeeded := succeeded s2 + 1\<rparr>;
                                    s4 = s3\<lparr>downloadedPerUser :=
                                              foldl (track (title job, author job))
                                                (downloadedPerUser s3) eligibleUsers\<rparr>;
                                    s5 = s4\<lparr>rateLimitedUserIds :=
                                              foldl (limit_refresh cfg (clock s4) (db s4))
                                                (rateLimitedUserIds s4) eligibleUsers\<rparr>
                                in (None, s5)))))"

text \<open>The \<^verbatim>\<open>catch\<close> block; \<open>job\<close> is the row as it was read before the increment.\<close>

definition catch_failure :: "book \<Rightarrow> queue_state \<Rightarrow> queue_state" where
  "catch_failure job s =
     (let s1 = (if attempts job + 1 \<ge> MAX_ATTEMPTS
                then s\<lparr>db := markFailed (clock s) (bid job) (db s)\<rparr> else s)
      in s1\<lparr>failed := failed s1 + 1\<rparr>)"

definition next_job :: "queue_state \<Rightarrow> book option" where
  "next_job s =
     (if length (skippedBookIds s) = 0 then getNextPending MAX_ATTEMPTS (db s)
      else getNextPendingNotIn MAX_ATTEMPTS (skippedBookIds s) (db s))"

definition eligible_users :: "queue_state \<Rightarrow> book \<Rightarrow> user list" where
  "eligible_users s job =
     (let linkedUsers = getUsersForBook (bid job) (db s)
      in filter (\<lambda>u. uid u \<notin> set (rateLimitedUserIds s)) linkedUsers)"

datatype 'a iteration = is_Break: Break (the_state: 'a) | Continue (the_state: 'a)

text \<open>
  One pass through the body of \<^verbatim>\<open>while (true)\<close>. The environment of an item is
  indexed by the number of items processed so far in the cycle.
\<close>

definition processQueue_iteration ::
  "config \<Rightarrow> string \<Rightarrow> (nat \<Rightarrow> attempt_env) \<Rightarrow> queue_state \<Rightarrow> queue_state iteration" where
  "processQueue_iteration cfg tempDir env s =
     (let dailyCount = countDownloadsToday (clock s) (db s)
      in if int dailyCount \<ge> MAX_DOWNLOADS_PER_DAY cfg then Break s
         else
           (case next_job s of
              None \<Rightarrow> Break s
            | Some job \<Rightarrow>
                let eligibleUsers = eligible_users s job
                in if length eligibleUsers = 0 then
                     Continue (s\<lparr>skippedBookIds := skippedBookIds s @ [bid job],
                                 skippedLimit := skippedLimit s + 1\<rparr>)
                   else
                     let s1 = (case try_attempt cfg tempDir (env (processed s)) job eligibleUsers s of
                                 (None, s') \<Rightarrow> s'
                               | (Some err, s') \<Rightarrow> catch_failure job s')
                     in Continue (s1\<lparr>processed := processed s1 + 1,
                                     clock := clock s1 + QUEUE_COOLDOWN_MS div 1000\<rparr>)))"

text \<open>
  The work that remains: each pending row below the attempt budget counts its
  remaining attempts, and one more while it has not been skipped in this cycle.
\<close>

definition remaining :: "nat list \<Rightarrow> book \<Rightarrow> nat" where
  "remaining skipped b =
     (if status b = Pending \<and> attempts b < MAX_ATTEMPTS
      then nat (MAX_ATTEMPTS - attempts b) + (if bid b \<in> set skipped then 0 else 1)
      else 0)"

definition queue_measure :: "queue_state \<Rightarrow> nat" where
  "queue_measure s = sum_list (map (remaining (skippedBookIds s)) (books (db s)))"

subsection \<open>The loop terminates\<close>

lemma first_min_attempts_mem: "first_min_attempts xs = Some b \<Longrightarrow> b \<in> set xs"
  by (induction xs arbitrary: b) (auto split: option.splits if_splits)

lemma first_min_attempts_None: "first_min_attempts xs = None \<longleftrightarrow> xs = []"
  by (induction xs) (auto split: option.splits)

lemma first_min_attempts_least:
  "first_min_attempts xs = Some b \<Longrightarrow> \<forall>x\<in>set xs. attempts b \<le> attempts x"
proof (induction xs arbitrary: b)
  case Nil
  then show ?case by simp
next
  case (Cons a xs)
  show ?case
  proof (cases "first_min_attempts xs")
    case None
    then have "xs = []" by (simp add: first_min_attempts_None)
    with Cons.prems show ?thesis by simp
  next
    case (Some m)
    with Cons.IH have "\<forall>x\<in>set xs. attempts m \<le> attempts x" by simp
    with Some Cons.prems show ?thesis by (auto split: if_splits)
  qed
qed

lemma next_job_Some:
  assumes "next_job s = Some job"
  shows "job \<in> set (books (db s))" and "status job = Pending"
    and "attempts job < MAX_ATTEMPTS" and "bid job \<notin> set (skippedBookIds s)"
  using assms first_min_attempts_mem
  by (fastforce simp: next_job_def getNextPending_def getNextPendingNotIn_def split: if_splits)+

lemma try_attempt_Some:
  assumes "try_attempt cfg tempDir e job us s = (Some err, s')"
  shows "db s' = incrementAttempts (clock s) (bid job) (db s)"
    and "skippedBookIds s' = skippedBookIds s"
    and "rateLimitedUserIds s' = rateLimitedUserIds s"
    and "processed s' = processed s" and "failed s' = failed s" and "succeeded s' = succeeded s"
    and "skippedLimit s' = skippedLimit s"
    and "clock s \<le> clock s'"
  using assms
  by (auto simp: try_attempt_def Let_def split: if_splits option.splits prod.splits sum.splits bool.splits)

lemma try_attempt_None:
  assumes "try_attempt cfg tempDir e job us s = (None, s')"
  shows "\<exists>f. db s' = markDownloaded (clock s') f (bid job) (incrementAttempts (clock s) (bid job) (db s))"
    and "skippedBookIds s' = skippedBookIds s"
    and "processed s' = processed s" and "failed s' = failed s" and "succeeded s' = succeeded s + 1"
    and "skippedLimit s' = skippedLimit s"
    and "clock s \<le> clock s'"
    and "rateLimitedUserIds s' = foldl (limit_refresh cfg (clock s') (db s')) (rateLimitedUserIds s) us"
  using assms
  by (auto simp: try_attempt_def Let_def split: if_splits option.splits prod.splits sum.splits bool.splits)

lemma iteration_Continue_cases:
  assumes "processQueue_iteration cfg tempDir env s = Continue s'"
  obtains
    (skip) job where "next_job s = Some job" "eligible_users s job = []"
      "s' = s\<lparr>skippedBookIds := skippedBookIds s @ [bid job], skippedLimit := skippedLimit s + 1\<rparr>"
  | (retry) job where "next_job s = Some job" "attempts job + 1 < MAX_ATTEMPTS"
      "db s' = incrementAttempts (clock s) (bid job) (db s)"
      "skippedBookIds s' = skippedBookIds s" "clock s \<le> clock s'"
  | (give_up) job t where "next_job s = Some job" "attempts job + 1 \<ge> MAX_ATTEMPTS"
      "db s' = markFailed t (bid job) (incrementAttempts (clock s) (bid job) (db s))"
      "skippedBookIds s' = skippedBookIds s" "clock s \<le> clock s'"
  | (success) job t f where "next_job s = Some job"
      "db s' = markDownloaded t f (bid job) (incrementAttempts (clock s) (bid job) (db s))"
      "skippedBookIds s' = skippedBookIds s" "clock s \<le> t" "t \<le> clock s'"
proof -
  from assms obtain job where job: "next_job s = Some job"
    by (auto simp: processQueue_iteration_def Let_def split: if_splits option.splits)
  show thesis
  proof (cases "eligible_users s job = []")
    case True
    with assms job have "s' = s\<lparr>skippedBookIds := skippedBookIds s @ [bid job], skippedLimit := skippedLimit s + 1\<rparr>"
      by (auto simp: processQueue_iteration_def Let_def split: if_splits)
    with job True show thesis by (rule skip)
  next
    case False
    obtain r s1 where t: "try_attempt cfg tempDir (env (processed s)) job (eligible_users s job) s = (r, s1)"
      by (cases "try_attempt cfg tempDir (env (processed s)) job (eligible_users s job) s") auto
    show thesis
    proof (cases r)
      case None
      with assms job False t
      have s': "s' = s1\<lparr>processed := processed s1 + 1, clock := clock s1 + QUEUE_COOLDOWN_MS div 1000\<rparr>"
        by (auto simp: processQueue_iteration_def Let_def split: if_splits)
      from t None have t': "try_attempt cfg tempDir (env (processed s)) job (eligible_users s job) s = (None, s1)"
        by simp
      from try_attempt_None(1)[OF t'] obtain f where
        dbf: "db s1 = markDownloaded (clock s1) f (bid job) (incrementAttempts (clock s) (bid job) (db s))"
        by blast
      note sk = try_attempt_None(2)[OF t'] and ck = try_attempt_None(7)[OF t']
      show thesis
        by (rule success[of job "clock s1" f]) (simp_all add: job s' dbf sk ck)
    next
      case (Some err)
      with assms job False t
      have s': "s' = (catch_failure job s1)\<lparr>processed := processed (catch_failure job s1) + 1,
                  clock := clock (catch_failure job s1) + QUEUE_COOLDOWN_MS div 1000\<rparr>"
        by (auto simp: processQueue_iteration_def Let_def split: if_splits)
      from t Some have t': "try_attempt cfg tempDir (env (processed s)) job (eligible_users s job) s = (Some err, s1)"
        by simp
      note s1 = try_attempt_Some(1)[OF t'] try_attempt_Some(2)[OF t'] try_attempt_Some(8)[OF t']
      show thesis
      proof (cases "attempts job + 1 \<ge> MAX_ATTEMPTS")
        case True
        show thesis
          by (rule give_up[of job "clock s1"])
             (insert s1(3), simp_all add: True job s' s1(1,2) catch_failure_def Let_def)
      next
        case False
        show thesis
          by (rule retry[of job])
             (insert s1(3) False, simp_all add: job s' s1(1,2) catch_failure_def Let_def)
      qed
    qed
  qed
qed

lemma sum_list_strict_mono:
  fixes f g :: "'a \<Rightarrow> nat"
  assumes "\<forall>x\<in>set xs. g x \<le> f x" and "\<exists>x\<in>set xs. g x < f x"
  shows "sum_list (map g xs) < sum_list (map f xs)"
  using assms
proof (induction xs)
  case Nil
  then show ?case by simp
next
  case (Cons a xs)
  have le: "sum_list (map g xs) \<le> sum_list (map f xs)"
    using Cons.prems(1) by (intro sum_list_mono) auto
  show ?case
  proof (cases "g a < f a")
    case True
    with le show ?thesis by simp
  next
    case False
    with Cons.prems have "\<exists>x\<in>set xs. g x < f x" by auto
    with Cons have "sum_list (map g xs) < sum_list (map f xs)" by auto
    moreover have "g a \<le> f a" using Cons.prems(1) by simp
    ultimately show ?thesis by simp
  qed
qed

lemma books_update_where_id:
  "books (update_where_id i f st) = map (\<lambda>b. if bid b = i then f b else b) (books st)"
  by (simp add: update_where_id_def)

lemma map_update_twice:
  assumes "\<And>b. bid (g b) = bid b"
  shows "map (\<lambda>b. if bid b = i then f b else b) (map (\<lambda>b. if bid b = i then g b else b) xs)
         = map (\<lambda>b. if bid b = i then f (g b) else b) xs"
  using assms by (induction xs) auto

lemma books_incrementAttempts:
  "books (incrementAttempts t i st)
   = map (\<lambda>b. if bid b = i then b\<lparr>attempts := attempts b + 1, updated_at := t\<rparr> else b) (books st)"
  by (simp add: incrementAttempts_def books_update_where_id)

lemma books_markFailed_increment:
  "books (markFailed t i (incrementAttempts t0 i st))
   = map (\<lambda>b. if bid b = i
               then b\<lparr>attempts := attempts b + 1, updated_at := t0\<rparr>\<lparr>status := Failed, updated_at := t\<rparr>
               else b) (books st)"
  unfolding markFailed_def incrementAttempts_def books_update_where_id
  by (rule map_update_twice) simp

lemma books_markDownloaded_increment:
  "books (markDownloaded t f i (incrementAttempts t0 i st))
   = map (\<lambda>b. if bid b = i
               then b\<lparr>attempts := attempts b + 1, updated_at := t0\<rparr>
                     \<lparr>status := Downloaded, file_path := Some f, downloaded_at := Some t, updated_at := t\<rparr>
               else b) (books st)"
  unfolding markDownloaded_def incrementAttempts_def books_update_where_id
  by (rule map_update_twice) simp

lemma measure_update:
  assumes job: "job \<in> set (books (db s))" "status job = Pending" "attempts job < MAX_ATTEMPTS"
    and sk: "skippedBookIds s' = skippedBookIds s"
    and db: "books (db s') = map (\<lambda>b. if bid b = bid job then g b else b) (books (db s))"
    and g: "\<And>b. remaining (skippedBookIds s) (g b) \<le> remaining (skippedBookIds s) b"
    and gjob: "remaining (skippedBookIds s) (g job) < remaining (skippedBookIds s) job"
  shows "queue_measure s' < queue_measure s"
proof -
  let ?h = "\<lambda>b. remaining (skippedBookIds s) (if bid b = bid job then g b else b)"
  have "sum_list (map ?h (books (db s))) < sum_list (map (remaining (skippedBookIds s)) (books (db s)))"
  proof (rule sum_list_strict_mono)
    show "\<forall>x\<in>set (books (db s)). ?h x \<le> remaining (skippedBookIds s) x"
      using g by auto
    show "\<exists>x\<in>set (books (db s)). ?h x < remaining (skippedBookIds s) x"
      using job(1) gjob by (intro bexI[of _ job]) auto
  qed
  then show ?thesis
    by (simp add: queue_measure_def sk db o_def)
qed

lemma iteration_decreases:
  assumes "processQueue_iteration cfg tempDir env s = Continue s'"
  shows "queue_measure s' < queue_measure s"
  using assms
proof (cases rule: iteration_Continue_cases)
  case (skip job)
  note j = next_job_Some[OF skip(1)]
  have "sum_list (map (remaining (skippedBookIds s @ [bid job])) (books (db s)))
        < sum_list (map (remaining (skippedBookIds s)) (books (db s)))"
  proof (rule sum_list_strict_mono)
    show "\<forall>x\<in>set (books (db s)). remaining (skippedBookIds s @ [bid job]) x \<le> remaining (skippedBookIds s) x"
      by (auto simp: remaining_def)
    show "\<exists>x\<in>set (books (db s)). remaining (skippedBookIds s @ [bid job]) x < remaining (skippedBookIds s) x"
      using j by (intro bexI[of _ job]) (auto simp: remaining_def)
  qed
  with skip(3) show ?thesis by (simp add: queue_measure_def)
next
  case (retry job)
  note j = next_job_Some[OF retry(1)]
  show ?thesis
    by (rule measure_update[OF j(1-3) retry(4), where g = "\<lambda>b. b\<lparr>attempts := attempts b + 1, updated_at := clock s\<rparr>"])
       (use j in \<open>auto simp: retry(3) books_incrementAttempts remaining_def MAX_ATTEMPTS_def\<close>)
next
  case (give_up job t)
  note j = next_job_Some[OF give_up(1)]
  show ?thesis
    by (rule measure_update[OF j(1-3) give_up(4), where g = "\<lambda>b. b\<lparr>attempts := attempts b + 1, updated_at := clock s\<rparr>\<lparr>status := Failed, updated_at := t\<rparr>"])
       (use j in \<open>auto simp: give_up(3) books_markFailed_increment remaining_def MAX_ATTEMPTS_def\<close>)
next
  case (success job t f)
  note j = next_job_Some[OF success(1)]
  show ?thesis
    by (rule measure_update[OF j(1-3) success(3), where g = "\<lambda>b. b\<lparr>attempts := attempts b + 1, updated_at := clock s\<rparr>
                     \<lparr>status := Downloaded, file_path := Some f, downloaded_at := Some t, updated_at := t\<rparr>"])
       (use j in \<open>auto simp: success(2) books_markDownloaded_increment remaining_def MAX_ATTEMPTS_def\<close>)
qed

text \<open>The \<^verbatim>\<open>while (true)\<close> loop of \<^verbatim>\<open>processQueue\<close>.\<close>

function processQueue_loop ::
  "config \<Rightarrow> string \<Rightarrow> (nat \<Rightarrow> attempt_env) \<Rightarrow> queue_state \<Rightarrow> queue_state" where
  "processQueue_loop cfg tempDir env s =
     (case processQueue_iteration cfg tempDir env s of
        Break s' \<Rightarrow> s'
      | Continue s' \<Rightarrow> processQueue_loop cfg tempDir env s')"
  by pat_completeness auto
termination
  by (relation "measure (\<lambda>(cfg, tempDir, env, s). queue_measure s)")
     (auto simp: iteration_decreases)

declare processQueue_loop.simps [simp del]

text \<open>
  One cycle of the queue, started at time \<open>now\<close> on the store \<open>st\<close>. The result is
  the value returned (\<open>None\<close> for the early \<^verbatim>\<open>return\<close> without a value) and the
  state the cycle leaves.
\<close>

definition initial_state :: "timestamp \<Rightarrow> fs \<Rightarrow> store \<Rightarrow> queue_state" where
  "initial_state now fls st =
     \<lparr>db = st, files = fls, clock = now, processed = 0, succeeded = 0, failed = 0,
      skippedLimit = 0, skippedBookIds = [], downloadedPerUser = [], rateLimitedUserIds = []\<rparr>"

definition processQueue ::
  "config \<Rightarrow> string \<Rightarrow> (nat \<Rightarrow> attempt_env) \<Rightarrow> timestamp \<Rightarrow> fs \<Rightarrow> store
     \<Rightarrow> downloaded_map option \<times> queue_state" where
  "processQueue cfg tempDir env now fls st =
     (let s0 = initial_state now fls st;
          todayCount = countDownloadsToday now st
      in if int todayCount \<ge> MAX_DOWNLOADS_PER_DAY cfg then (None, s0)
         else
           let s1 = s0\<lparr>rateLimitedUserIds := foldl (limit_check cfg now st) [] (getUsers st)\<rparr>;
               s' = processQueue_loop cfg tempDir env s1
           in (Some (downloadedPerUser s'), s'))"

section \<open>How a cycle may change a book\<close>

text \<open>
  The relation between a row before and after queue operations: the id stays, the
  attempts do not go down and stay within the budget, a row that is not pending or
  has used its budget is left as it is, a pending row becomes \<open>failed\<close> only with
  its attempts at the budget, does not stay pending once its attempts reach the
  budget, and becomes \<open>downloaded\<close> only with \<open>downloaded_at\<close> set.
\<close>

definition book_evolves :: "book \<Rightarrow> book \<Rightarrow> bool" where
  "book_evolves b b' \<longleftrightarrow>
     bid b' = bid b
     \<and> attempts b \<le> attempts b'
     \<and> (attempts b \<le> MAX_ATTEMPTS \<longrightarrow> attempts b' \<le> MAX_ATTEMPTS)
     \<and> (status b \<noteq> Pending \<longrightarrow> b' = b)
     \<and> (attempts b \<ge> MAX_ATTEMPTS \<longrightarrow> b' = b)
     \<and> (status b = Pending \<and> status b' = Failed \<longrightarrow> attempts b' = MAX_ATTEMPTS)
     \<and> (status b = Pending \<and> attempts b < MAX_ATTEMPTS \<and> attempts b' \<ge> MAX_ATTEMPTS
          \<longrightarrow> status b' \<noteq> Pending)
     \<and> (status b = Pending \<and> status b' = Downloaded \<longrightarrow> downloaded_at b' \<noteq> None)"

definition store_evolves :: "store \<Rightarrow> store \<Rightarrow> bool" where
  "store_evolves st st' \<longleftrightarrow> list_all2 book_evolves (books st) (books st')"

text \<open>
  The daily cap as a property of the store at time \<open>now\<close>: ids are distinct, no
  day counts more downloads than the cap, and no download is dated after today.
\<close>

definition within_cap :: "int \<Rightarrow> timestamp \<Rightarrow> store \<Rightarrow> bool" where
  "within_cap cap now st \<longleftrightarrow>
     distinct (map bid (books st))
     \<and> (\<forall>t. int (countDownloadsToday t st) \<le> cap)
     \<and> (\<forall>t. date now < date t \<longrightarrow> countDownloadsToday t st = 0)"

text \<open>
  The calendar day of the specification's rate-limit window, in a time zone
  \<open>offset\<close> seconds east of UTC (3600 for Europe/Amsterdam in winter).
\<close>

definition local_date :: "nat \<Rightarrow> timestamp \<Rightarrow> nat" where
  "local_date offset t = (t + offset) div 86400"

section \<open>A small library used in the examples\<close>

definition alice :: user where
  "alice = \<lparr>uid = 1, name = ''Alice'', goodreads_id = ''104614681'',
            download_path = ''/downloads/Alice'', email = None\<rparr>"

definition dune :: book where
  "dune = new_book 1 0 ''gr-1'' None (Some ''Dune'') (Some ''Frank Herbert'')"

definition library :: store where
  "library = \<lparr>users = [alice], books = [dune],
               user_books = [\<lparr>user_id = 1, book_id = 1, is_notified = False\<rparr>],
               books_seq = 1\<rparr>"

text \<open>The same library after its book was downloaded at second 1000.\<close>

definition downloaded_library :: store where
  "downloaded_library = markDownloaded 1000 ''Frank Herbert - Dune.epub'' 1 library"

definition tmp_dir :: string where
  "tmp_dir = ''/app/data/tmp''"

definition detail_url :: string where
  "detail_url = ''https://annas-archive.li/md5/abc''"

definition fast_url :: string where
  "fast_url = ''https://annas-archive.li/fast_download/abc/0/0?key=k''"

text \<open>A world where the download is a good file of 5 MB and every copy fails.\<close>

definition env_copy_fails :: "nat \<Rightarrow> attempt_env" where
  "env_copy_fails n =
     \<lparr>search_result = Some detail_url,
      download = \<lparr>browser_result = None, http_result = Some (''.epub'', Some 5000000)\<rparr>,
      copy_fails = (\<lambda>u. True), unlink_fails = False, elapsed = 30\<rparr>"

text \<open>A world where the download is a payload of 900 bytes.\<close>

definition env_small_file :: "nat \<Rightarrow> attempt_env" where
  "env_small_file n =
     \<lparr>search_result = Some detail_url,
      download = \<lparr>browser_result = Some (''/app/data/tmp/dune.epub'', 900),
                  http_result = Some (''.epub'', Some 900)\<rparr>,
      copy_fails = (\<lambda>u. False), unlink_fails = False, elapsed = 30\<rparr>"

text \<open>The library with its book one attempt before the end of its budget.\<close>

definition last_dune :: book where
  "last_dune = dune\<lparr>attempts := 4\<rparr>"

definition last_chance :: store where
  "last_chance = library\<lparr>books := [last_dune]\<rparr>"

text \<open>
  The library with its book pending and its budget used: the state a crash between
  \<^verbatim>\<open>incrementAttempts\<close> and \<^verbatim>\<open>markFailed\<close> leaves.
\<close>

definition stuck_dune :: book where
  "stuck_dune = dune\<lparr>attempts := 5\<rparr>"

definition stuck_library :: store where
  "stuck_library = library\<lparr>books := [stuck_dune]\<rparr>"

text \<open>A library with 50 books downloaded on the day of second 1000, and one pending.\<close>

definition done_book :: "nat \<Rightarrow> book" where
  "done_book i =
     \<lparr>bid = i, goodreads_book_id = None, isbn = None, title = Some ''Done'', author = None,
      status = Downloaded, attempts = 1, file_path = Some ''Done.epub'',
      added_at = 0, updated_at = 1000, downloaded_at = Some 1000\<rparr>"

definition full_library :: store where
  "full_library = \<lparr>users = [alice], books = map done_book [1..<51] @ [dune\<lparr>bid := 51\<rparr>],
                    user_books = [\<lparr>user_id = 1, book_id = 51, is_notified = False\<rparr>],
                    books_seq = 51\<rparr>"

text \<open>
  A configuration with one download per user and day, and a library where Alice has
  had hers: the first book was downloaded at second 1000, the second is pending.
\<close>

definition strict_config :: config where
  "strict_config = \<lparr>MAX_DOWNLOADS_PER_USER_PER_DAY = 1, MAX_DOWNLOADS_PER_DAY = 50\<rparr>"

definition emma :: book where
  "emma = new_book 2 0 ''gr-2'' None (Some ''Emma'') (Some ''Jane Austen'')"

definition capped_library :: store where
  "capped_library =
     \<lparr>users = [alice], books = [done_book 1, emma],
      user_books = [\<lparr>user_id = 1, book_id = 1, is_notified = False\<rparr>,
                    \<lparr>user_id = 1, book_id = 2, is_notified = False\<rparr>],
      books_seq = 2\<rparr>"

text \<open>A world where the download is a good file of 5 MB and every copy succeeds.\<close>

definition env_ok :: "nat \<Rightarrow> attempt_env" where
  "env_ok n =
     \<lparr>search_result = Some detail_url,
      download = \<lparr>browser_result = None, http_result = Some (''.epub'', Some 5000000)\<rparr>,
      copy_fails = (\<lambda>u. False), unlink_fails = False, elapsed = 30\<rparr>"

text \<open>A global cap of one download per day.\<close>

definition cap_one :: config where
  "cap_one = \<lparr>MAX_DOWNLOADS_PER_USER_PER_DAY = 10, MAX_DOWNLOADS_PER_DAY = 1\<rparr>"

text \<open>Two pending books for Alice.\<close>

definition two_book_library :: store where
  "two_book_library =
     \<lparr>users = [alice], books = [dune, emma],
      user_books = [\<lparr>user_id = 1, book_id = 1, is_notified = False\<rparr>,
                    \<lparr>user_id = 1, book_id = 2, is_notified = False\<rparr>],
      books_seq = 2\<rparr>"

text \<open>
  A first book downloaded at second 86370, half a minute before midnight UTC of
  day 0, and a second book pending.
\<close>

definition done_late :: book where
  "done_late = (done_book 1)\<lparr>updated_at := 86370, downloaded_at := Some 86370\<rparr>"

definition midnight_library :: store where
  "midnight_library =
     \<lparr>users = [alice], books = [done_late, emma],
      user_books = [\<lparr>user_id = 1, book_id = 1, is_notified = False\<rparr>,
                    \<lparr>user_id = 1, book_id = 2, is_notified = False\<rparr>],
      books_seq = 2\<rparr>"

text \<open>
  A database from before the column \<open>downloaded_at\<close> existed: its book was
  downloaded at second 1000 and an upsert of the feed touched it at second 90000,
  on the next day.
\<close>

definition legacy_dune :: book where
  "legacy_dune = dune\<lparr>status := Downloaded, attempts := 1,
                       file_path := Some ''Frank Herbert - Dune.epub'', updated_at := 1000\<rparr>"

definition legacy_library :: store where
  "legacy_library =
     upsertBookByGoodreadsId 90000 ''gr-1'' None (Some ''Dune'') None
       (library\<lparr>books := [legacy_dune]\<rparr>)"

section \<open>Properties of the fuzzy matcher\<close>









lemma str_includes_iff: "str_includes h n \<longleftrightarrow> (\<exists>p s. h = p @ n @ s)"
proof (induction h)
  case Nil
  then show ?case by auto
next
  case (Cons c cs)
  have pre: "(take (length n) (c # cs) = n) \<longleftrightarrow> (\<exists>s. c # cs = n @ s)"
    by (metis append_eq_conv_conj append_take_drop_id)
  have "(\<exists>p s. c # cs = p @ n @ s) \<longleftrightarrow> (\<exists>s. c # cs = n @ s) \<or> (\<exists>p s. cs = p @ n @ s)"
  proof
    assume "\<exists>p s. c # cs = p @ n @ s"
    then obtain p s where ps: "c # cs = p @ n @ s" by blast
    show "(\<exists>s. c # cs = n @ s) \<or> (\<exists>p s. cs = p @ n @ s)"
    proof (cases p)
      case Nil
      with ps show ?thesis by auto
    next
      case (Cons x p')
      with ps have "cs = p' @ n @ s" by simp
      then show ?thesis by blast
    qed
  next
    assume "(\<exists>s. c # cs = n @ s) \<or> (\<exists>p s. cs = p @ n @ s)"
    then show "\<exists>p s. c # cs = p @ n @ s"
    proof
      assume "\<exists>s. c # cs = n @ s"
      then obtain s where "c # cs = [] @ n @ s" by auto
      then show ?thesis by blast
    next
      assume "\<exists>p s. cs = p @ n @ s"
      then obtain p s where "c # cs = (c # p) @ n @ s" by auto
      then show ?thesis by blast
    qed
  qed
  with pre Cons.IH show ?case by simp
qed

lemma author_tokens_code:
  "set (filter (\<lambda>w. length w > 2) (js_split CHR '' '' (normalizeText a))) = author_tokens a"
  by (auto simp: author_tokens_def words_def)

text \<open>
  C6. \<^verbatim>\<open>isGoodMatch\<close> accepts exactly when the title score is at least 7/10 and,
  if an expected author is present, some token of length above 2 of the normalized
  expected author is a substring of the normalized candidate author. Without an
  expected author the title score alone decides.
\<close>

theorem isGoodMatch_iff:
  "isGoodMatch expectedTitle expectedAuthor resultTitle resultAuthor \<longleftrightarrow>
     wordOverlap expectedTitle resultTitle \<ge> 7 / 10 \<and>
     (truthy expectedAuthor \<longrightarrow>
        (\<exists>tok \<in> author_tokens expectedAuthor. \<exists>p s. normalizeText resultAuthor = p @ tok @ s))"
  unfolding isGoodMatch_def Let_def list_ex_iff author_tokens_code str_includes_iff
  by (auto simp: not_less)

text \<open>
  An expected author that is present and hit (\<^verbatim>\<open>leckie\<close>), and a title score of
  exactly 7/10 without an expected author: both are accepted.
\<close>

theorem isGoodMatch_iff_witness:
  "truthy (Some ''Ann Leckie'')
   \<and> isGoodMatch (Some ''Ancillary Justice'') (Some ''Ann Leckie'')
        (Some ''Ancillary Justice'') (Some ''by A. Leckie (trans.)'')
   \<and> wordOverlap (Some ''a b c d e f g h i j'') (Some ''a b c d e f g x y z'') = 7 / 10
   \<and> isGoodMatch (Some ''a b c d e f g h i j'') None (Some ''a b c d e f g x y z'') None
   \<and> wordOverlap (Some ''a b c'') (Some ''a b x'') = 2 / 3
   \<and> \<not> isGoodMatch (Some ''a b c'') None (Some ''a b x'') None"
proof -
  have t: "truthy (Some ''Ann Leckie'')" and n: "\<not> truthy None"
    by (simp_all add: truthy_def)
  have s: "wordOverlap (Some ''Ancillary Justice'') (Some ''Ancillary Justice'') = 1"
    by code_simp
  have "''leckie'' \<in> set (words (normalizeText (Some ''Ann Leckie'')))"
    by code_simp
  then have tok: "''leckie'' \<in> author_tokens (Some ''Ann Leckie'')"
    by (simp add: author_tokens_def)
  have r: "normalizeText (Some ''by A. Leckie (trans.)'') = ''by a '' @ ''leckie'' @ []"
    by code_simp
  from r have "\<exists>p s. normalizeText (Some ''by A. Leckie (trans.)'') = p @ ''leckie'' @ s"
    by blast
  with tok have hit: "\<exists>tok \<in> author_tokens (Some ''Ann Leckie'').
      \<exists>p s. normalizeText (Some ''by A. Leckie (trans.)'') = p @ tok @ s"
    by blast
  have a: "isGoodMatch (Some ''Ancillary Justice'') (Some ''Ann Leckie'')
             (Some ''Ancillary Justice'') (Some ''by A. Leckie (trans.)'')"
    using isGoodMatch_iff[of "Some ''Ancillary Justice''" "Some ''Ann Leckie''"
            "Some ''Ancillary Justice''" "Some ''by A. Leckie (trans.)''"] s hit
    by simp
  have s7: "wordOverlap (Some ''a b c d e f g h i j'') (Some ''a b c d e f g x y z'') = 7 / 10"
    by code_simp
  have b: "isGoodMatch (Some ''a b c d e f g h i j'') None (Some ''a b c d e f g x y z'') None"
    using isGoodMatch_iff[of "Some ''a b c d e f g h i j''" None
            "Some ''a b c d e f g x y z''" None] n s7
    by simp
  have s3: "wordOverlap (Some ''a b c'') (Some ''a b x'') = 2 / 3"
    by code_simp
  have c: "\<not> isGoodMatch (Some ''a b c'') None (Some ''a b x'') None"
    using isGoodMatch_iff[of "Some ''a b c''" None "Some ''a b x''" None] s3
    by simp
  from t a s7 b s3 c show ?thesis by blast
qed

section \<open>Properties of the ingestion upsert\<close>

lemma has_key_upsert_row [simp]: "has_key k (upsert_row now i t a b) = has_key k b"
  by (simp add: has_key_def upsert_row_def)

lemma list_ex_has_key: "list_ex (has_key k) xs \<longleftrightarrow> filter (has_key k) xs \<noteq> []"
  by (simp add: list_ex_iff filter_empty_conv)

lemma filter_key_upsert_map:
  "filter (has_key k) (map (\<lambda>b. if has_key k b then upsert_row now i t a b else b) xs)
   = map (upsert_row now i t a) (filter (has_key k) xs)"
  by (induction xs) auto

lemma has_key_new_book: "has_key k (new_book n now k i t a)"
  by (simp add: has_key_def new_book_def)

lemma filter_key_upsert:
  "filter (has_key k) (books (upsertBookByGoodreadsId now k i t a st))
   = (if filter (has_key k) (books st) = []
      then [new_book (next_rowid st) now k i t a]
      else map (upsert_row now i t a) (filter (has_key k) (books st)))"
  by (simp add: upsertBookByGoodreadsId_def list_ex_has_key filter_key_upsert_map
        has_key_new_book)

lemma books_upsert:
  "books (upsertBookByGoodreadsId now k i t a st)
   = map (\<lambda>b. if has_key k b then upsert_row now i t a b else b) (books st)
     @ (if list_ex (has_key k) (books st) then [] else [new_book (next_rowid st) now k i t a])"
proof (cases "list_ex (has_key k) (books st)")
  case True
  then show ?thesis by (simp add: upsertBookByGoodreadsId_def)
next
  case False
  then have "\<forall>b\<in>set (books st). \<not> has_key k b" by (simp add: list_ex_iff)
  then have "map (\<lambda>b. if has_key k b then upsert_row now i t a b else b) (books st) = books st"
    by (induction "books st") (auto simp: map_idI)
  with False show ?thesis by (simp add: upsertBookByGoodreadsId_def)
qed

text \<open>
  C7. On a store with at most one row for the key, upserting the key with
  (title X, author null) and then with (title null, author Y) leaves exactly one row
  for the key, with title X and author Y. Any single upsert leaves exactly one row
  for its key, adds no row when one exists, and changes no existing row's id or key;
  a field that was not null is not null afterwards, and a null incoming value leaves
  the field as it was.
\<close>

theorem upsert_preserves_non_null:
  assumes "length (filter (has_key key) (books st)) \<le> 1"
  shows "(\<exists>b. filter (has_key key)
               (books (upsertBookByGoodreadsId t2 key i2 None (Some Y)
                        (upsertBookByGoodreadsId t1 key i1 (Some X) None st))) = [b]
             \<and> title b = Some X \<and> author b = Some Y)
       \<and> length (filter (has_key key) (books (upsertBookByGoodreadsId now key i t a st))) = 1
       \<and> length (books (upsertBookByGoodreadsId now key i t a st))
           = (if list_ex (has_key key) (books st) then length (books st) else Suc (length (books st)))
       \<and> (\<forall>n < length (books st).
            let b = books st ! n; b' = books (upsertBookByGoodreadsId now key i t a st) ! n
            in bid b' = bid b \<and> goodreads_book_id b' = goodreads_book_id b
               \<and> (isbn b \<noteq> None \<longrightarrow> isbn b' \<noteq> None)
               \<and> (title b \<noteq> None \<longrightarrow> title b' \<noteq> None)
               \<and> (author b \<noteq> None \<longrightarrow> author b' \<noteq> None)
               \<and> (i = None \<longrightarrow> isbn b' = isbn b)
               \<and> (t = None \<longrightarrow> title b' = title b)
               \<and> (a = None \<longrightarrow> author b' = author b))"
proof (intro conjI)
  let ?st1 = "upsertBookByGoodreadsId t1 key i1 (Some X) None st"
  from assms consider "filter (has_key key) (books st) = []"
    | b0 where "filter (has_key key) (books st) = [b0]"
    by (cases "filter (has_key key) (books st)") auto
  then show "\<exists>b. filter (has_key key) (books (upsertBookByGoodreadsId t2 key i2 None (Some Y) ?st1)) = [b]
             \<and> title b = Some X \<and> author b = Some Y"
  proof cases
    case 1
    then show ?thesis
      by (simp add: filter_key_upsert new_book_def upsert_row_def COALESCE_def)
  next
    case 2
    then show ?thesis
      by (simp add: filter_key_upsert upsert_row_def COALESCE_def)
  qed
  from assms show "length (filter (has_key key) (books (upsertBookByGoodreadsId now key i t a st))) = 1"
    by (cases "filter (has_key key) (books st)") (auto simp: filter_key_upsert)
  show "length (books (upsertBookByGoodreadsId now key i t a st))
           = (if list_ex (has_key key) (books st) then length (books st) else Suc (length (books st)))"
    by (simp add: books_upsert)
  show "\<forall>n < length (books st).
            let b = books st ! n; b' = books (upsertBookByGoodreadsId now key i t a st) ! n
            in bid b' = bid b \<and> goodreads_book_id b' = goodreads_book_id b
               \<and> (isbn b \<noteq> None \<longrightarrow> isbn b' \<noteq> None)
               \<and> (title b \<noteq> None \<longrightarrow> title b' \<noteq> None)
               \<and> (author b \<noteq> None \<longrightarrow> author b' \<noteq> None)
               \<and> (i = None \<longrightarrow> isbn b' = isbn b)
               \<and> (t = None \<longrightarrow> title b' = title b)
               \<and> (a = None \<longrightarrow> author b' = author b)"
    by (auto simp: books_upsert nth_append Let_def upsert_row_def COALESCE_def split: option.splits)
qed

text \<open>
  On the example library, whose one book has the key \<^verbatim>\<open>gr-1\<close>, title
  \<^verbatim>\<open>Dune\<close> and an author: the two upserts leave one row with title X and
  author Y, and an upsert with a null title keeps \<^verbatim>\<open>Dune\<close>.
\<close>

theorem upsert_preserves_non_null_witness:
  "length (filter (has_key ''gr-1'') (books library)) \<le> 1
   \<and> (\<exists>b. filter (has_key ''gr-1'')
             (books (upsertBookByGoodreadsId 20 ''gr-1'' None None (Some ''Y'')
                      (upsertBookByGoodreadsId 10 ''gr-1'' None (Some ''X'') None library))) = [b]
           \<and> title b = Some ''X'' \<and> author b = Some ''Y'')
   \<and> 0 < length (books library)
   \<and> title (books library ! 0) \<noteq> None
   \<and> title (books (upsertBookByGoodreadsId 30 ''gr-1'' None None (Some ''Y'') library) ! 0)
       = Some ''Dune''"
proof -
  have h: "length (filter (has_key ''gr-1'') (books library)) \<le> 1"
    by (simp add: library_def)
  have n: "0 < length (books library)" and t: "title (books library ! 0) = Some ''Dune''"
    by (simp_all add: library_def dune_def new_book_def)
  from upsert_preserves_non_null[OF h, of 20 None "''Y''" 10 None "''X''" 30 None None "Some ''Y''"] n t
  show ?thesis using h by (auto simp: Let_def)
qed

section \<open>Properties of the daily counts\<close>

lemma filter_map_same:
  assumes "\<And>b. P (g b) = P b"
  shows "filter P (map g xs) = map g (filter P xs)"
  using assms by (induction xs) auto

lemma countDownloadsToday_cong:
  assumes "books st' = map g (books st) @ extra"
    and "\<And>b. downloaded_on (date now) (g b) = downloaded_on (date now) b"
    and "\<forall>b\<in>set extra. \<not> downloaded_on (date now) b"
  shows "countDownloadsToday now st' = countDownloadsToday now st"
proof -
  have "filter (downloaded_on (date now)) extra = []"
    using assms(3) by (simp add: filter_empty_conv)
  then show ?thesis
    by (simp add: countDownloadsToday_def assms(1)
          filter_map_same[where P = "downloaded_on (date now)" and g = g, OF assms(2)])
qed

lemma countUserDownloadsToday_cong:
  assumes "books st' = map g (books st) @ extra"
    and "user_books st' = user_books st"
    and "\<And>b. downloaded_on (date now) (g b) = downloaded_on (date now) b"
    and "\<And>b. bid (g b) = bid b"
    and "\<forall>b\<in>set extra. \<not> downloaded_on (date now) b"
  shows "countUserDownloadsToday now u st' = countUserDownloadsToday now u st"
proof -
  have "filter (downloaded_on (date now)) extra = []"
    using assms(5) by (simp add: filter_empty_conv)
  then show ?thesis
    by (simp add: countUserDownloadsToday_def assms(1,2,4)
          filter_map_same[where P = "downloaded_on (date now)" and g = g, OF assms(3)] o_def)
qed

lemma downloaded_on_upsert_row [simp]:
  "downloaded_on d (upsert_row now i t a b) = downloaded_on d b"
  by (simp add: downloaded_on_def upsert_row_def)

lemma bid_upsert_row [simp]: "bid (upsert_row now i t a b) = bid b"
  by (simp add: upsert_row_def)

lemma not_downloaded_on_new_book [simp]: "\<not> downloaded_on d (new_book n now k i t a)"
  by (simp add: downloaded_on_def new_book_def)

lemma user_books_upsert [simp]:
  "user_books (upsertBookByGoodreadsId now k i t a st) = user_books st"
  by (simp add: upsertBookByGoodreadsId_def)

lemma map_field_update:
  assumes "\<And>b. h (f b) = h b"
  shows "map h (map (\<lambda>b. if bid b = i then f b else b) xs) = map h xs"
  using assms by (induction xs) auto

lemma upsert_countDownloadsToday:
  "countDownloadsToday now' (upsertBookByGoodreadsId now key i t a st) = countDownloadsToday now' st"
  by (rule countDownloadsToday_cong[OF books_upsert]) auto

lemma upsert_countUserDownloadsToday:
  "countUserDownloadsToday now' u (upsertBookByGoodreadsId now key i t a st)
   = countUserDownloadsToday now' u st"
  by (rule countUserDownloadsToday_cong[OF books_upsert]) auto

lemma upsert_rows:
  "\<forall>n < length (books st).
     let b = books st ! n; b' = books (upsertBookByGoodreadsId now key i t a st) ! n
     in downloaded_at b' = downloaded_at b \<and> status b' = status b
        \<and> (has_key key b \<longrightarrow> updated_at b' = now)"
  by (simp add: books_upsert nth_append Let_def upsert_row_def)

lemma touch_countDownloadsToday:
  "countDownloadsToday now' (st\<lparr>books := map (\<lambda>b. b\<lparr>updated_at := g b\<rparr>) (books st)\<rparr>)
   = countDownloadsToday now' st"
  by (rule countDownloadsToday_cong[where extra = "[]" and g = "\<lambda>b. b\<lparr>updated_at := g b\<rparr>"])
     (simp_all add: downloaded_on_def)

lemma touch_countUserDownloadsToday:
  "countUserDownloadsToday now' u (st\<lparr>books := map (\<lambda>b. b\<lparr>updated_at := g b\<rparr>) (books st)\<rparr>)
   = countUserDownloadsToday now' u st"
  by (rule countUserDownloadsToday_cong[where extra = "[]" and g = "\<lambda>b. b\<lparr>updated_at := g b\<rparr>"])
     (simp_all add: downloaded_on_def)

lemma incrementAttempts_downloaded_at:
  "map downloaded_at (books (incrementAttempts t1 j st)) = map downloaded_at (books st)"
  unfolding incrementAttempts_def books_update_where_id by (rule map_field_update) simp

lemma markFailed_downloaded_at:
  "map downloaded_at (books (markFailed t1 j st)) = map downloaded_at (books st)"
  unfolding markFailed_def books_update_where_id by (rule map_field_update) simp

lemma markDownloaded_sets:
  "\<forall>b \<in> set (books (markDownloaded t1 f j st)).
     bid b = j \<longrightarrow> downloaded_at b = Some t1 \<and> status b = Downloaded"
proof
  fix b assume "b \<in> set (books (markDownloaded t1 f j st))"
  then obtain b0 where "b0 \<in> set (books st)"
    and b: "b = (if bid b0 = j then b0\<lparr>status := Downloaded, file_path := Some f,
              downloaded_at := Some t1, updated_at := t1\<rparr> else b0)"
    unfolding markDownloaded_def books_update_where_id by auto
  show "bid b = j \<longrightarrow> downloaded_at b = Some t1 \<and> status b = Downloaded"
    by (cases "bid b0 = j") (simp_all add: b)
qed

lemma migrate_rows:
  "\<forall>n < length (books st).
     let b = books st ! n; b' = books (migrate_downloaded_at st) ! n
     in (status b = Downloaded \<and> downloaded_at b = None
           \<longrightarrow> b' = b\<lparr>downloaded_at := Some (updated_at b)\<rparr>)
        \<and> (status b \<noteq> Downloaded \<or> downloaded_at b \<noteq> None \<longrightarrow> b' = b)"
  by (simp add: migrate_downloaded_at_def Let_def)

lemma reset_limits_rows:
  "\<forall>n < length (books st).
     let b = books st ! n; b' = books (reset_limits now st) ! n
     in (downloaded_on (date now) b
           \<longrightarrow> b' = b\<lparr>downloaded_at := Some (86400 * (date now - 1))\<rparr>)
        \<and> (\<not> downloaded_on (date now) b \<longrightarrow> b' = b)"
  by (simp add: reset_limits_def Let_def)

lemma reset_limits_none_today:
  assumes "0 < date now"
  shows "filter (downloaded_on (date now)) (books (reset_limits now st)) = []"
proof -
  define f where "f = (\<lambda>b. if downloaded_on (date now) b
                          then b\<lparr>downloaded_at := Some (86400 * (date now - 1))\<rparr> else b)"
  have d: "date (86400 * k) = k" for k
    by (simp add: date_def)
  have ne: "date now - Suc 0 \<noteq> date now"
    using assms by arith
  have key: "\<not> downloaded_on (date now) (f b)" for b
    using ne by (simp add: f_def downloaded_on_def d)
  have "books (reset_limits now st) = map f (books st)"
    by (simp add: reset_limits_def f_def)
  then show ?thesis
    by (simp add: filter_empty_conv key)
qed

lemma reset_limits_clears:
  "0 < date now \<Longrightarrow> countDownloadsToday now (reset_limits now st) = 0"
  by (simp add: countDownloadsToday_def reset_limits_none_today)

lemma reset_limits_clears_user:
  "0 < date now \<Longrightarrow> countUserDownloadsToday now u (reset_limits now st) = 0"
  by (simp add: countUserDownloadsToday_def reset_limits_none_today)

lemma legacy_books:
  "books legacy_library = [legacy_dune\<lparr>updated_at := 90000\<rparr>]"
  by (simp add: legacy_library_def upsertBookByGoodreadsId_def has_key_def upsert_row_def
        COALESCE_def legacy_dune_def library_def dune_def new_book_def)

lemma legacy_user_books:
  "user_books legacy_library = [\<lparr>user_id = 1, book_id = 1, is_notified = False\<rparr>]"
  by (simp add: legacy_library_def upsertBookByGoodreadsId_def library_def)

lemma legacy_migrated:
  "books (migrate_downloaded_at legacy_library)
   = [legacy_dune\<lparr>updated_at := 90000, downloaded_at := Some 90000\<rparr>]"
  by (simp add: migrate_downloaded_at_def legacy_books legacy_dune_def dune_def new_book_def)

text \<open>
  C8, as the code has it. Both daily counts read, of a book, only its status and
  \<open>downloaded_at\<close>: rewriting every \<open>updated_at\<close> changes neither count. An
  ingestion upsert leaves both counts as they were, at any time and for any user; it
  keeps the status and \<open>downloaded_at\<close> of every existing row and sets
  \<open>updated_at\<close> of the row with the key. Of the statements of the queue that
  write a book, \<^verbatim>\<open>incrementAttempts\<close> and \<^verbatim>\<open>markFailed\<close> keep every
  \<open>downloaded_at\<close> and \<^verbatim>\<open>markDownloaded\<close> sets it. Two statements outside the
  queue write \<open>downloaded_at\<close> as well: the migration of \<^verbatim>\<open>initDb\<close> gives a
  downloaded row that has none its \<open>updated_at\<close> and leaves every other row as
  it was, and the reset-limits script moves every download of today to the start of
  the previous day and leaves every other row as it was, after which both counts of
  today are zero.
\<close>

theorem daily_counts_from_downloaded_at:
  "countDownloadsToday now' (upsertBookByGoodreadsId now key i t a st) = countDownloadsToday now' st
   \<and> countUserDownloadsToday now' u (upsertBookByGoodreadsId now key i t a st)
       = countUserDownloadsToday now' u st
   \<and> (\<forall>n < length (books st).
        let b = books st ! n; b' = books (upsertBookByGoodreadsId now key i t a st) ! n
        in downloaded_at b' = downloaded_at b \<and> status b' = status b
           \<and> (has_key key b \<longrightarrow> updated_at b' = now))
   \<and> countDownloadsToday now' (st\<lparr>books := map (\<lambda>b. b\<lparr>updated_at := g b\<rparr>) (books st)\<rparr>)
       = countDownloadsToday now' st
   \<and> countUserDownloadsToday now' u (st\<lparr>books := map (\<lambda>b. b\<lparr>updated_at := g b\<rparr>) (books st)\<rparr>)
       = countUserDownloadsToday now' u st
   \<and> map downloaded_at (books (incrementAttempts t1 j st)) = map downloaded_at (books st)
   \<and> map downloaded_at (books (markFailed t1 j st)) = map downloaded_at (books st)
   \<and> (\<forall>b \<in> set (books (markDownloaded t1 f j st)).
        bid b = j \<longrightarrow> downloaded_at b = Some t1 \<and> status b = Downloaded)
   \<and> (\<forall>n < length (books st).
        let b = books st ! n; b' = books (migrate_downloaded_at st) ! n
        in (status b = Downloaded \<and> downloaded_at b = None
              \<longrightarrow> b' = b\<lparr>downloaded_at := Some (updated_at b)\<rparr>)
           \<and> (status b \<noteq> Downloaded \<or> downloaded_at b \<noteq> None \<longrightarrow> b' = b))
   \<and> (\<forall>n < length (books st).
        let b = books st ! n; b' = books (reset_limits now' st) ! n
        in (downloaded_on (date now') b
              \<longrightarrow> b' = b\<lparr>downloaded_at := Some (86400 * (date now' - 1))\<rparr>)
           \<and> (\<not> downloaded_on (date now') b \<longrightarrow> b' = b))
   \<and> (0 < date now'
        \<longrightarrow> countDownloadsToday now' (reset_limits now' st) = 0
            \<and> countUserDownloadsToday now' u (reset_limits now' st) = 0)"
proof (intro conjI)
  show "countDownloadsToday now' (upsertBookByGoodreadsId now key i t a st)
        = countDownloadsToday now' st"
    by (rule upsert_countDownloadsToday)
  show "countUserDownloadsToday now' u (upsertBookByGoodreadsId now key i t a st)
        = countUserDownloadsToday now' u st"
    by (rule upsert_countUserDownloadsToday)
  show "\<forall>n < length (books st).
        let b = books st ! n; b' = books (upsertBookByGoodreadsId now key i t a st) ! n
        in downloaded_at b' = downloaded_at b \<and> status b' = status b
           \<and> (has_key key b \<longrightarrow> updated_at b' = now)"
    by (rule upsert_rows)
  show "countDownloadsToday now' (st\<lparr>books := map (\<lambda>b. b\<lparr>updated_at := g b\<rparr>) (books st)\<rparr>)
        = countDownloadsToday now' st"
    by (rule touch_countDownloadsToday)
  show "countUserDownloadsToday now' u (st\<lparr>books := map (\<lambda>b. b\<lparr>updated_at := g b\<rparr>) (books st)\<rparr>)
        = countUserDownloadsToday now' u st"
    by (rule touch_countUserDownloadsToday)
  show "map downloaded_at (books (incrementAttempts t1 j st)) = map downloaded_at (books st)"
    by (rule incrementAttempts_downloaded_at)
  show "map downloaded_at (books (markFailed t1 j st)) = map downloaded_at (books st)"
    by (rule markFailed_downloaded_at)
  show "\<forall>b \<in> set (books (markDownloaded t1 f j st)).
        bid b = j \<longrightarrow> downloaded_at b = Some t1 \<and> status b = Downloaded"
    by (rule markDownloaded_sets)
  show "\<forall>n < length (books st).
        let b = books st ! n; b' = books (migrate_downloaded_at st) ! n
        in (status b = Downloaded \<and> downloaded_at b = None
              \<longrightarrow> b' = b\<lparr>downloaded_at := Some (updated_at b)\<rparr>)
           \<and> (status b \<noteq> Downloaded \<or> downloaded_at b \<noteq> None \<longrightarrow> b' = b)"
    by (rule migrate_rows)
  show "\<forall>n < length (books st).
        let b = books st ! n; b' = books (reset_limits now' st) ! n
        in (downloaded_on (date now') b
              \<longrightarrow> b' = b\<lparr>downloaded_at := Some (86400 * (date now' - 1))\<rparr>)
           \<and> (\<not> downloaded_on (date now') b \<longrightarrow> b' = b)"
    by (rule reset_limits_rows)
  show "0 < date now'
        \<longrightarrow> countDownloadsToday now' (reset_limits now' st) = 0
            \<and> countUserDownloadsToday now' u (reset_limits now' st) = 0"
    by (simp add: reset_limits_clears reset_limits_clears_user)
qed

text \<open>
  The downloaded example library, one day later (second 90000): an upsert of its
  book moves \<open>updated_at\<close> to that day and leaves \<open>downloaded_at\<close> at second 1000,
  so the book still counts for the first day and not for the second; the migration
  and the reset-limits script of that day leave its row as it was. The row of the
  legacy library has no \<open>downloaded_at\<close>: the migration gives it second 90000,
  the reset-limits script of that day then moves it to second 0, and both counts of
  the day are zero.
\<close>

theorem daily_counts_from_downloaded_at_witness:
  "0 < length (books downloaded_library)
   \<and> has_key ''gr-1'' (books downloaded_library ! 0)
   \<and> updated_at (books (upsertBookByGoodreadsId 90000 ''gr-1'' None (Some ''Dune'') None
                          downloaded_library) ! 0) = 90000
   \<and> downloaded_at (books (upsertBookByGoodreadsId 90000 ''gr-1'' None (Some ''Dune'') None
                             downloaded_library) ! 0) = Some 1000
   \<and> countDownloadsToday 1000 (upsertBookByGoodreadsId 90000 ''gr-1'' None (Some ''Dune'') None
                                 downloaded_library) = 1
   \<and> countDownloadsToday 90000 (upsertBookByGoodreadsId 90000 ''gr-1'' None (Some ''Dune'') None
                                  downloaded_library) = 0
   \<and> countUserDownloadsToday 1000 1 (upsertBookByGoodreadsId 90000 ''gr-1'' None (Some ''Dune'') None
                                       downloaded_library) = 1
   \<and> (\<exists>b \<in> set (books downloaded_library). bid b = 1 \<and> downloaded_at b = Some 1000)
   \<and> downloaded_at (books downloaded_library ! 0) \<noteq> None
   \<and> books (migrate_downloaded_at downloaded_library) ! 0 = books downloaded_library ! 0
   \<and> \<not> downloaded_on (date 90000) (books downloaded_library ! 0)
   \<and> books (reset_limits 90000 downloaded_library) ! 0 = books downloaded_library ! 0
   \<and> 0 < length (books legacy_library)
   \<and> status (books legacy_library ! 0) = Downloaded
   \<and> downloaded_at (books legacy_library ! 0) = None
   \<and> updated_at (books legacy_library ! 0) = 90000
   \<and> books (migrate_downloaded_at legacy_library) ! 0
       = (books legacy_library ! 0)\<lparr>downloaded_at := Some 90000\<rparr>
   \<and> 0 < date 90000
   \<and> downloaded_on (date 90000) (books (migrate_downloaded_at legacy_library) ! 0)
   \<and> books (reset_limits 90000 (migrate_downloaded_at legacy_library)) ! 0
       = (books (migrate_downloaded_at legacy_library) ! 0)\<lparr>downloaded_at := Some 0\<rparr>
   \<and> countDownloadsToday 90000 (reset_limits 90000 (migrate_downloaded_at legacy_library)) = 0
   \<and> countUserDownloadsToday 90000 1 (reset_limits 90000 (migrate_downloaded_at legacy_library)) = 0"
proof -
  have bs: "books downloaded_library
            = [dune\<lparr>status := Downloaded, file_path := Some ''Frank Herbert - Dune.epub'',
                    downloaded_at := Some 1000, updated_at := 1000\<rparr>]"
    by (simp add: downloaded_library_def markDownloaded_def update_where_id_def library_def
          dune_def new_book_def)
  have ub: "user_books downloaded_library = [\<lparr>user_id = 1, book_id = 1, is_notified = False\<rparr>]"
    by (simp add: downloaded_library_def markDownloaded_def update_where_id_def library_def)
  have n: "0 < length (books downloaded_library)" by (simp add: bs)
  have k: "has_key ''gr-1'' (books downloaded_library ! 0)"
    by (simp add: bs has_key_def dune_def new_book_def)
  have d0: "downloaded_at (books downloaded_library ! 0) = Some 1000" by (simp add: bs)
  have c1: "countDownloadsToday 1000 downloaded_library = 1"
    by (simp add: countDownloadsToday_def bs downloaded_on_def date_def)
  have c2: "countDownloadsToday 90000 downloaded_library = 0"
    by (simp add: countDownloadsToday_def bs downloaded_on_def date_def)
  have c3: "countUserDownloadsToday 1000 1 downloaded_library = 1"
    by (simp add: countUserDownloadsToday_def bs ub downloaded_on_def date_def dune_def new_book_def)
  have m: "\<exists>b \<in> set (books downloaded_library). bid b = 1 \<and> downloaded_at b = Some 1000"
    by (simp add: bs dune_def new_book_def)
  have o0: "\<not> downloaded_on (date 90000) (books downloaded_library ! 0)"
    by (simp add: bs downloaded_on_def date_def)
  note th = daily_counts_from_downloaded_at[of _ 90000 "''gr-1''" None "Some ''Dune''" None
              downloaded_library]
  from th[of 1000] th[of 90000] n k d0 c1 c2 c3 m o0 have first:
    "0 < length (books downloaded_library)
     \<and> has_key ''gr-1'' (books downloaded_library ! 0)
     \<and> updated_at (books (upsertBookByGoodreadsId 90000 ''gr-1'' None (Some ''Dune'') None
                          downloaded_library) ! 0) = 90000
     \<and> downloaded_at (books (upsertBookByGoodreadsId 90000 ''gr-1'' None (Some ''Dune'') None
                             downloaded_library) ! 0) = Some 1000
     \<and> countDownloadsToday 1000 (upsertBookByGoodreadsId 90000 ''gr-1'' None (Some ''Dune'') None
                                 downloaded_library) = 1
     \<and> countDownloadsToday 90000 (upsertBookByGoodreadsId 90000 ''gr-1'' None (Some ''Dune'') None
                                  downloaded_library) = 0
     \<and> countUserDownloadsToday 1000 1 (upsertBookByGoodreadsId 90000 ''gr-1'' None (Some ''Dune'') None
                                       downloaded_library) = 1
     \<and> (\<exists>b \<in> set (books downloaded_library). bid b = 1 \<and> downloaded_at b = Some 1000)
     \<and> downloaded_at (books downloaded_library ! 0) \<noteq> None
     \<and> books (migrate_downloaded_at downloaded_library) ! 0 = books downloaded_library ! 0
     \<and> \<not> downloaded_on (date 90000) (books downloaded_library ! 0)
     \<and> books (reset_limits 90000 downloaded_library) ! 0 = books downloaded_library ! 0"
    by (simp add: Let_def)
  have n2: "0 < length (books legacy_library)" by (simp add: legacy_books)
  have s2: "status (books legacy_library ! 0) = Downloaded"
    by (simp add: legacy_books legacy_dune_def)
  have d2: "downloaded_at (books legacy_library ! 0) = None"
    by (simp add: legacy_books legacy_dune_def dune_def new_book_def)
  have u2: "updated_at (books legacy_library ! 0) = 90000"
    by (simp add: legacy_books)
  from daily_counts_from_downloaded_at[where st = legacy_library] n2 s2 d2 u2 have mg:
    "books (migrate_downloaded_at legacy_library) ! 0
     = (books legacy_library ! 0)\<lparr>downloaded_at := Some 90000\<rparr>"
    by (simp add: Let_def)
  have day: "0 < date 90000" "86400 * (date 90000 - 1) = 0"
    by (simp_all add: date_def)
  have n3: "0 < length (books (migrate_downloaded_at legacy_library))"
    by (simp add: legacy_migrated)
  have o3: "downloaded_on (date 90000) (books (migrate_downloaded_at legacy_library) ! 0)"
    by (simp add: legacy_migrated downloaded_on_def legacy_dune_def date_def)
  from daily_counts_from_downloaded_at[where st = "migrate_downloaded_at legacy_library" and now' = 90000
         and u = 1] n3 o3 day
  have second:
    "books (reset_limits 90000 (migrate_downloaded_at legacy_library)) ! 0
       = (books (migrate_downloaded_at legacy_library) ! 0)\<lparr>downloaded_at := Some 0\<rparr>
     \<and> countDownloadsToday 90000 (reset_limits 90000 (migrate_downloaded_at legacy_library)) = 0
     \<and> countUserDownloadsToday 90000 1 (reset_limits 90000 (migrate_downloaded_at legacy_library)) = 0"
    by (simp add: Let_def)
  from first n2 s2 d2 u2 mg day(1) o3 second show ?thesis
    by simp
qed

text \<open>
  C8 as the specification words it says that only the success operation sets
  \<open>downloaded_at\<close>. In the legacy library the book was downloaded on day 0 and
  touched by an upsert on day 1; the migration, which is no success operation, sets
  its \<open>downloaded_at\<close> to the \<open>updated_at\<close> of the upsert, and both counts of day 1
  go from 0 to 1. The reset-limits script then rewrites the \<open>downloaded_at\<close> again
  and the count of day 1 is back at 0.
\<close>

theorem downloaded_at_outside_success_counterexample:
  "status (books legacy_library ! 0) = Downloaded
   \<and> downloaded_at (books legacy_library ! 0) = None
   \<and> updated_at (books legacy_library ! 0) = 90000
   \<and> downloaded_at (books (migrate_downloaded_at legacy_library) ! 0) = Some 90000
   \<and> countDownloadsToday 90000 legacy_library = 0
   \<and> countDownloadsToday 90000 (migrate_downloaded_at legacy_library) = 1
   \<and> countUserDownloadsToday 90000 1 legacy_library = 0
   \<and> countUserDownloadsToday 90000 1 (migrate_downloaded_at legacy_library) = 1
   \<and> map downloaded_at (books (reset_limits 90000 (migrate_downloaded_at legacy_library)))
       = [Some 0]
   \<and> countDownloadsToday 90000 (reset_limits 90000 (migrate_downloaded_at legacy_library)) = 0"
proof -
  have ub: "user_books (migrate_downloaded_at legacy_library)
            = [\<lparr>user_id = 1, book_id = 1, is_notified = False\<rparr>]"
    by (simp add: migrate_downloaded_at_def legacy_user_books)
  have on: "downloaded_on (date 90000) (legacy_dune\<lparr>updated_at := 90000, downloaded_at := Some 90000\<rparr>)"
    by (simp add: downloaded_on_def legacy_dune_def date_def)
  have rs: "books (reset_limits 90000 (migrate_downloaded_at legacy_library))
            = [legacy_dune\<lparr>updated_at := 90000, downloaded_at := Some 0\<rparr>]"
    using on by (simp add: reset_limits_def legacy_migrated date_def)
  show ?thesis
    by (simp add: legacy_books legacy_migrated rs ub legacy_user_books countDownloadsToday_def
          countUserDownloadsToday_def downloaded_on_def date_def legacy_dune_def dune_def
          new_book_def)
qed

section \<open>Properties of the download\<close>

lemma downloadBook_browser_small:
  assumes "str_includes url ''/fast_download/''" "browser_result denv = Some (path, nbytes)"
    and "nbytes < 1024"
  shows "downloadBook tempDir denv url job fls
         = (Inl (DownloadTooSmall nbytes), (fls(path \<mapsto> nbytes))(path := None))"
  using assms by (simp add: downloadBook_def Let_def)

lemma downloadBook_direct_small:
  assumes "\<not> str_includes url ''/fast_download/''" "http_result denv = Some (ext, Some nbytes)"
    and "nbytes < 1024"
  shows "downloadBook tempDir denv url job fls
         = (Inl (DownloadTooSmall nbytes),
            (fls(join tempDir (safe_title job @ ext) \<mapsto> nbytes))
              (join tempDir (safe_title job @ ext) := None))"
  using assms by (simp add: downloadBook_def Let_def)

lemma downloadBook_success_size:
  assumes "downloadBook tempDir denv url job fls = (Inr (p, e), fls')"
  shows "\<exists>n\<ge>1024. fls' p = Some n"
proof (cases "str_includes url ''/fast_download/''")
  case True
  with assms show ?thesis
    by (simp add: downloadBook_def Let_def split: option.splits prod.splits if_splits) auto
next
  case False
  with assms show ?thesis
    by (simp add: downloadBook_def Let_def split: option.splits prod.splits if_splits) auto
qed

section \<open>Properties of one iteration\<close>

lemma iteration_processes:
  assumes "\<not> int (countDownloadsToday (clock s) (db s)) \<ge> MAX_DOWNLOADS_PER_DAY cfg"
    and "next_job s = Some job" and "eligible_users s job \<noteq> []"
    and "try_attempt cfg tempDir (env (processed s)) job (eligible_users s job) s = (r, s1)"
  shows "processQueue_iteration cfg tempDir env s
         = Continue (let s2 = (case r of None \<Rightarrow> s1 | Some err \<Rightarrow> catch_failure job s1)
                     in s2\<lparr>processed := processed s2 + 1,
                           clock := clock s2 + QUEUE_COOLDOWN_MS div 1000\<rparr>)"
  using assms by (cases r) (simp_all add: processQueue_iteration_def Let_def)

lemma try_attempt_download_error:
  assumes "search_term job \<noteq> []" and "search_result e = Some url"
    and "downloadBook tempDir (download e) url job (files s) = (Inl err, fls1)"
  shows "try_attempt cfg tempDir e job us s
         = (Some err, s\<lparr>db := incrementAttempts (clock s) (bid job) (db s),
                         clock := clock s + elapsed e, files := fls1\<rparr>)"
  using assms by (simp add: try_attempt_def Let_def)

lemma try_attempt_copy_error:
  assumes "search_term job \<noteq> []" and "search_result e = Some url"
    and "downloadBook tempDir (download e) url job (files s) = (Inr (tempPath, ext), fls1)"
    and "copy_to_users (copy_fails e) tempPath (safe_title job @ ext) us fls1 = (False, fls2)"
  shows "try_attempt cfg tempDir e job us s
         = (Some CopyFailed, s\<lparr>db := incrementAttempts (clock s) (bid job) (db s),
                                clock := clock s + elapsed e, files := fls2\<rparr>)"
  using assms by (simp add: try_attempt_def Let_def)

lemma copy_to_users_fails:
  "\<exists>u\<in>set us. fails (uid u) \<Longrightarrow> fst (copy_to_users fails tempPath filename us fls) = False"
  by (induction us arbitrary: fls) (auto split: option.splits)

lemma iteration_failure:
  assumes cap: "\<not> int (countDownloadsToday (clock s) (db s)) \<ge> MAX_DOWNLOADS_PER_DAY cfg"
    and job: "next_job s = Some job" and el: "eligible_users s job \<noteq> []"
    and t: "try_attempt cfg tempDir (env (processed s)) job (eligible_users s job) s = (Some err, s1)"
  shows "\<exists>s'. processQueue_iteration cfg tempDir env s = Continue s'
           \<and> db s' = (if attempts job + 1 \<ge> MAX_ATTEMPTS
                       then markFailed (clock s1) (bid job) (incrementAttempts (clock s) (bid job) (db s))
                       else incrementAttempts (clock s) (bid job) (db s))
           \<and> failed s' = failed s + 1 \<and> succeeded s' = succeeded s
           \<and> processed s' = processed s + 1
           \<and> skippedBookIds s' = skippedBookIds s \<and> skippedLimit s' = skippedLimit s
           \<and> rateLimitedUserIds s' = rateLimitedUserIds s
           \<and> downloadedPerUser s' = downloadedPerUser s1
           \<and> files s' = files s1"
  unfolding iteration_processes[where env = env, OF cap job el t]
  using try_attempt_Some[OF t]
  by (simp add: Let_def catch_failure_def)

lemma iteration_success:
  assumes cap: "\<not> int (countDownloadsToday (clock s) (db s)) \<ge> MAX_DOWNLOADS_PER_DAY cfg"
    and job: "next_job s = Some job" and el: "eligible_users s job \<noteq> []"
    and t: "try_attempt cfg tempDir (env (processed s)) job (eligible_users s job) s = (None, s1)"
  shows "\<exists>s' f. processQueue_iteration cfg tempDir env s = Continue s'
           \<and> db s' = markDownloaded (clock s1) f (bid job) (incrementAttempts (clock s) (bid job) (db s))
           \<and> failed s' = failed s \<and> succeeded s' = succeeded s + 1
           \<and> processed s' = processed s + 1
           \<and> skippedBookIds s' = skippedBookIds s \<and> skippedLimit s' = skippedLimit s
           \<and> rateLimitedUserIds s'
               = foldl (limit_refresh cfg (clock s1) (db s')) (rateLimitedUserIds s) (eligible_users s job)"
proof -
  from try_attempt_None(1)[OF t] obtain f where
    f: "db s1 = markDownloaded (clock s1) f (bid job) (incrementAttempts (clock s) (bid job) (db s))"
    by blast
  show ?thesis
    unfolding iteration_processes[where env = env, OF cap job el t]
    using try_attempt_None(2-8)[OF t] f
    by (intro exI[of _ "s1\<lparr>processed := processed s1 + 1,
                              clock := clock s1 + QUEUE_COOLDOWN_MS div 1000\<rparr>"] exI[of _ f])
       (simp add: Let_def)
qed

lemma iteration_skip:
  assumes cap: "\<not> int (countDownloadsToday (clock s) (db s)) \<ge> MAX_DOWNLOADS_PER_DAY cfg"
    and job: "next_job s = Some job" and el: "eligible_users s job = []"
  shows "processQueue_iteration cfg tempDir env s
         = Continue (s\<lparr>skippedBookIds := skippedBookIds s @ [bid job],
                         skippedLimit := skippedLimit s + 1\<rparr>)"
  using assms by (simp add: processQueue_iteration_def Let_def)

lemma iteration_cap_reached:
  assumes "int (countDownloadsToday (clock s) (db s)) \<ge> MAX_DOWNLOADS_PER_DAY cfg"
  shows "processQueue_iteration cfg tempDir env s = Break s"
  using assms by (simp add: processQueue_iteration_def Let_def)

lemma iteration_queue_empty:
  assumes "next_job s = None"
  shows "processQueue_iteration cfg tempDir env s = Break s"
  using assms by (simp add: processQueue_iteration_def Let_def)

text \<open>Facts about the example library, each evaluated on its own.\<close>

lemma library_count: "countDownloadsToday 1000 library = 0"
  by (simp add: countDownloadsToday_def library_def downloaded_on_def dune_def new_book_def)

lemma library_state:
  "clock (initial_state 1000 Map.empty library) = 1000"
  "db (initial_state 1000 Map.empty library) = library"
  "files (initial_state 1000 Map.empty library) = Map.empty"
  "processed (initial_state 1000 Map.empty library) = 0"
  "failed (initial_state 1000 Map.empty library) = 0"
  "succeeded (initial_state 1000 Map.empty library) = 0"
  "skippedBookIds (initial_state 1000 Map.empty library) = []"
  "rateLimitedUserIds (initial_state 1000 Map.empty library) = []"
  by (simp_all add: initial_state_def)

lemma library_cap:
  "\<not> int (countDownloadsToday (clock (initial_state 1000 Map.empty library))
            (db (initial_state 1000 Map.empty library))) \<ge> MAX_DOWNLOADS_PER_DAY default_config"
  by (simp add: library_state library_count default_config_def)

lemma library_next_job: "next_job (initial_state 1000 Map.empty library) = Some dune"
  by (simp add: next_job_def initial_state_def getNextPending_def library_def dune_def new_book_def
        MAX_ATTEMPTS_def)

lemma library_eligible: "eligible_users (initial_state 1000 Map.empty library) dune = [alice]"
  by (simp add: eligible_users_def initial_state_def getUsersForBook_def library_def dune_def
        new_book_def alice_def)

lemma dune_search_term: "search_term dune \<noteq> []"
  by code_simp

lemma dune_attempts: "attempts dune + 1 < MAX_ATTEMPTS" "bid dune = 1"
  by (simp_all add: dune_def new_book_def MAX_ATTEMPTS_def)

lemma detail_url_direct: "\<not> str_includes detail_url ''/fast_download/''"
  by code_simp

lemma fast_url_browser: "str_includes fast_url ''/fast_download/''"
  by code_simp

lemma safe_title_dune: "safe_title dune = ''Frank Herbert - Dune''"
  by code_simp

lemma library_after_failure:
  "map status (books (incrementAttempts 1000 1 library)) = [Pending]"
  "map downloaded_at (books (incrementAttempts 1000 1 library)) = [None]"
  "map attempts (books (incrementAttempts 1000 1 library)) = [1]"
  by (simp_all add: incrementAttempts_def update_where_id_def library_def dune_def new_book_def)

text \<open>
  C9. A completed download of fewer than 1024 bytes, on the browser path as on the
  direct path, makes \<^verbatim>\<open>downloadBook\<close> throw, and the file it had written is
  gone; a path that \<^verbatim>\<open>downloadBook\<close> returns holds at least 1024 bytes. In the
  queue, the item is then recorded as a failure: the failure counter goes up, the
  success counter does not, and the book is not marked downloaded.
\<close>

theorem downloadBook_rejects_small_files:
  "(str_includes url ''/fast_download/'' \<and> browser_result denv = Some (path, nbytes) \<and> nbytes < 1024
      \<longrightarrow> (\<exists>fls'. downloadBook tempDir denv url job fls = (Inl (DownloadTooSmall nbytes), fls')
                  \<and> fls' path = None))
   \<and> (\<not> str_includes url ''/fast_download/'' \<and> http_result denv = Some (ext, Some nbytes)
        \<and> nbytes < 1024
      \<longrightarrow> (\<exists>fls'. downloadBook tempDir denv url job fls = (Inl (DownloadTooSmall nbytes), fls')
                  \<and> fls' (join tempDir (safe_title job @ ext)) = None))
   \<and> (downloadBook tempDir denv url job fls = (Inr (p, e), fls') \<longrightarrow> (\<exists>n\<ge>1024. fls' p = Some n))
   \<and> (\<not> int (countDownloadsToday (clock s) (db s)) \<ge> MAX_DOWNLOADS_PER_DAY cfg
        \<and> next_job s = Some job \<and> eligible_users s job \<noteq> [] \<and> search_term job \<noteq> []
        \<and> search_result (env (processed s)) = Some url
        \<and> fst (downloadBook tempDir (download (env (processed s))) url job (files s))
            = Inl (DownloadTooSmall nbytes)
      \<longrightarrow> (\<exists>s'. processQueue_iteration cfg tempDir env s = Continue s'
                 \<and> failed s' = failed s + 1 \<and> succeeded s' = succeeded s
                 \<and> db s' = (if attempts job + 1 \<ge> MAX_ATTEMPTS
                             then markFailed (clock s + elapsed (env (processed s))) (bid job)
                                    (incrementAttempts (clock s) (bid job) (db s))
                             else incrementAttempts (clock s) (bid job) (db s))))"
proof (intro conjI impI)
  assume "str_includes url ''/fast_download/'' \<and> browser_result denv = Some (path, nbytes) \<and> nbytes < 1024"
  then show "\<exists>fls'. downloadBook tempDir denv url job fls = (Inl (DownloadTooSmall nbytes), fls')
                  \<and> fls' path = None"
    by (simp add: downloadBook_browser_small)
next
  assume "\<not> str_includes url ''/fast_download/'' \<and> http_result denv = Some (ext, Some nbytes)
        \<and> nbytes < 1024"
  then show "\<exists>fls'. downloadBook tempDir denv url job fls = (Inl (DownloadTooSmall nbytes), fls')
                  \<and> fls' (join tempDir (safe_title job @ ext)) = None"
    by (simp add: downloadBook_direct_small)
next
  assume "downloadBook tempDir denv url job fls = (Inr (p, e), fls')"
  then show "\<exists>n\<ge>1024. fls' p = Some n" by (rule downloadBook_success_size)
next
  assume a: "\<not> int (countDownloadsToday (clock s) (db s)) \<ge> MAX_DOWNLOADS_PER_DAY cfg
        \<and> next_job s = Some job \<and> eligible_users s job \<noteq> [] \<and> search_term job \<noteq> []
        \<and> search_result (env (processed s)) = Some url
        \<and> fst (downloadBook tempDir (download (env (processed s))) url job (files s))
            = Inl (DownloadTooSmall nbytes)"
  then obtain fls1 where
    d: "downloadBook tempDir (download (env (processed s))) url job (files s)
        = (Inl (DownloadTooSmall nbytes), fls1)"
    by (cases "downloadBook tempDir (download (env (processed s))) url job (files s)") auto
  from a have t: "try_attempt cfg tempDir (env (processed s)) job (eligible_users s job) s
         = (Some (DownloadTooSmall nbytes),
            s\<lparr>db := incrementAttempts (clock s) (bid job) (db s),
              clock := clock s + elapsed (env (processed s)), files := fls1\<rparr>)"
    by (intro try_attempt_download_error[OF _ _ d]) simp_all
  from a iteration_failure[where env = env, OF _ _ _ t]
  show "\<exists>s'. processQueue_iteration cfg tempDir env s = Continue s'
                 \<and> failed s' = failed s + 1 \<and> succeeded s' = succeeded s
                 \<and> db s' = (if attempts job + 1 \<ge> MAX_ATTEMPTS
                             then markFailed (clock s + elapsed (env (processed s))) (bid job)
                                    (incrementAttempts (clock s) (bid job) (db s))
                             else incrementAttempts (clock s) (bid job) (db s))"
    by auto
qed

text \<open>
  A payload of 900 bytes: both paths throw and remove the file, and the first item
  of a cycle on the example library is recorded as a failure, the book still pending.
\<close>

theorem downloadBook_rejects_small_files_witness:
  "str_includes fast_url ''/fast_download/''
   \<and> fst (downloadBook tmp_dir (download (env_small_file 0)) fast_url dune Map.empty)
       = Inl (DownloadTooSmall 900)
   \<and> snd (downloadBook tmp_dir (download (env_small_file 0)) fast_url dune Map.empty)
       ''/app/data/tmp/dune.epub'' = None
   \<and> \<not> str_includes detail_url ''/fast_download/''
   \<and> fst (downloadBook tmp_dir (download (env_small_file 0)) detail_url dune Map.empty)
       = Inl (DownloadTooSmall 900)
   \<and> snd (downloadBook tmp_dir (download (env_small_file 0)) detail_url dune Map.empty)
       (join tmp_dir (safe_title dune @ ''.epub'')) = None
   \<and> failed (the_state (processQueue_iteration default_config tmp_dir env_small_file
                (initial_state 1000 Map.empty library))) = 1
   \<and> succeeded (the_state (processQueue_iteration default_config tmp_dir env_small_file
                (initial_state 1000 Map.empty library))) = 0
   \<and> map status (books (db (the_state (processQueue_iteration default_config tmp_dir env_small_file
                (initial_state 1000 Map.empty library))))) = [Pending]"
proof -
  let ?s = "initial_state 1000 Map.empty library"
  note th = downloadBook_rejects_small_files
  have b: "browser_result (download (env_small_file 0)) = Some (''/app/data/tmp/dune.epub'', 900)"
    and h: "http_result (download (env_small_file 0)) = Some (''.epub'', Some 900)"
    and sr: "search_result (env_small_file (processed ?s)) = Some detail_url"
    and e0: "env_small_file (processed ?s) = env_small_file 0"
    by (simp_all add: env_small_file_def)
  from th[where url = fast_url and denv = "download (env_small_file 0)"
            and path = "''/app/data/tmp/dune.epub''" and nbytes = 900 and tempDir = tmp_dir
            and job = dune and fls = Map.empty, THEN conjunct1]
    fast_url_browser b
  have 1: "fst (downloadBook tmp_dir (download (env_small_file 0)) fast_url dune Map.empty)
             = Inl (DownloadTooSmall 900)
           \<and> snd (downloadBook tmp_dir (download (env_small_file 0)) fast_url dune Map.empty)
               ''/app/data/tmp/dune.epub'' = None"
    by auto
  from th[where url = detail_url and denv = "download (env_small_file 0)"
            and ext = "''.epub''" and nbytes = 900 and tempDir = tmp_dir
            and job = dune and fls = Map.empty, THEN conjunct2, THEN conjunct1]
    detail_url_direct h
  have 2: "fst (downloadBook tmp_dir (download (env_small_file 0)) detail_url dune Map.empty)
             = Inl (DownloadTooSmall 900)
           \<and> snd (downloadBook tmp_dir (download (env_small_file 0)) detail_url dune Map.empty)
               (join tmp_dir (safe_title dune @ ''.epub'')) = None"
    by auto
  from 2 have d: "fst (downloadBook tmp_dir (download (env_small_file (processed ?s))) detail_url
                    dune (files ?s)) = Inl (DownloadTooSmall 900)"
    by (simp add: e0 library_state)
  from th[where url = detail_url and nbytes = 900 and tempDir = tmp_dir and job = dune
            and s = ?s and cfg = default_config and env = env_small_file,
            THEN conjunct2, THEN conjunct2, THEN conjunct2]
    library_cap library_next_job library_eligible dune_search_term sr d
  obtain s' where s': "processQueue_iteration default_config tmp_dir env_small_file ?s = Continue s'"
    "failed s' = failed ?s + 1" "succeeded s' = succeeded ?s"
    "db s' = incrementAttempts 1000 1 library"
    using dune_attempts by (auto simp: library_state)
  from s' have 3: "failed (the_state (processQueue_iteration default_config tmp_dir env_small_file ?s)) = 1"
    "succeeded (the_state (processQueue_iteration default_config tmp_dir env_small_file ?s)) = 0"
    "map status (books (db (the_state (processQueue_iteration default_config tmp_dir env_small_file ?s))))
       = [Pending]"
    by (simp_all add: library_state library_after_failure[unfolded One_nat_def])
  from 1 2 3 fast_url_browser detail_url_direct show ?thesis by blast
qed

section \<open>A copy that fails\<close>

lemma good_download:
  "fst (downloadBook tmp_dir (download (env_copy_fails 0)) detail_url dune Map.empty)
   = Inr (''/app/data/tmp/Frank Herbert - Dune.epub'', ''.epub'')"
  by (simp add: downloadBook_def detail_url_direct safe_title_dune Let_def env_copy_fails_def
        join_def tmp_dir_def)

lemma mem_update_where_id:
  assumes "b \<in> set (books st)" and "bid b = i"
  shows "f b \<in> set (books (update_where_id i f st))"
  using assms by (auto simp: books_update_where_id)

lemma iteration_copy_failure:
  assumes cap: "\<not> int (countDownloadsToday (clock s) (db s)) \<ge> MAX_DOWNLOADS_PER_DAY cfg"
    and job: "next_job s = Some job" and el: "eligible_users s job \<noteq> []"
    and sterm: "search_term job \<noteq> []"
    and found: "search_result (env (processed s)) = Some url"
    and dl: "fst (downloadBook tempDir (download (env (processed s))) url job (files s))
             = Inr (tempPath, ext)"
    and cp: "\<exists>u\<in>set (eligible_users s job). copy_fails (env (processed s)) (uid u)"
  shows "\<exists>s'. processQueue_iteration cfg tempDir env s = Continue s'
           \<and> failed s' = failed s + 1 \<and> succeeded s' = succeeded s
           \<and> db s' = (if attempts job + 1 \<ge> MAX_ATTEMPTS
                       then markFailed (clock s + elapsed (env (processed s))) (bid job)
                              (incrementAttempts (clock s) (bid job) (db s))
                       else incrementAttempts (clock s) (bid job) (db s))
           \<and> rateLimitedUserIds s' = rateLimitedUserIds s
           \<and> downloadedPerUser s' = downloadedPerUser s"
proof -
  let ?e = "env (processed s)"
  from dl obtain fls1 where
    d: "downloadBook tempDir (download ?e) url job (files s) = (Inr (tempPath, ext), fls1)"
    by (cases "downloadBook tempDir (download ?e) url job (files s)") auto
  have "fst (copy_to_users (copy_fails ?e) tempPath (safe_title job @ ext) (eligible_users s job) fls1)
        = False"
    by (rule copy_to_users_fails[OF cp])
  then obtain fls2 where
    c: "copy_to_users (copy_fails ?e) tempPath (safe_title job @ ext) (eligible_users s job) fls1
        = (False, fls2)"
    by (metis prod.collapse)
  note t = try_attempt_copy_error[OF sterm found d c, of cfg]
  from iteration_failure[where env = env, OF cap job el t] show ?thesis by auto
qed

lemma failed_row:
  assumes "job \<in> set (books st)"
  shows "job\<lparr>attempts := attempts job + 1, updated_at := t0\<rparr>
           \<in> set (books (incrementAttempts t0 (bid job) st))"
    and "job\<lparr>attempts := attempts job + 1, updated_at := t0\<rparr>\<lparr>status := Failed, updated_at := t1\<rparr>
           \<in> set (books (markFailed t1 (bid job) (incrementAttempts t0 (bid job) st)))"
  using assms by (auto simp: books_incrementAttempts books_markFailed_increment)

text \<open>
  C1, as the code has it. The copy loop runs inside the \<^verbatim>\<open>try\<close> block and before
  \<^verbatim>\<open>markDownloaded\<close>: when the download succeeds and the copy to one eligible
  destination throws, the item is recorded as a failure. The book is not marked
  downloaded: its row has one more attempt, keeps \<open>downloaded_at\<close>, and is
  \<open>failed\<close> if this was the last attempt of the budget and \<open>pending\<close> as before
  otherwise. The rate-limited set and the notification map are unchanged.
\<close>

theorem copy_failure_fails_attempt:
  assumes "\<not> int (countDownloadsToday (clock s) (db s)) \<ge> MAX_DOWNLOADS_PER_DAY cfg"
    and "next_job s = Some job" and "eligible_users s job \<noteq> []"
    and "search_term job \<noteq> []"
    and "search_result (env (processed s)) = Some url"
    and "fst (downloadBook tempDir (download (env (processed s))) url job (files s))
         = Inr (tempPath, ext)"
    and "\<exists>u\<in>set (eligible_users s job). copy_fails (env (processed s)) (uid u)"
  shows "\<exists>s'. processQueue_iteration cfg tempDir env s = Continue s'
           \<and> failed s' = failed s + 1 \<and> succeeded s' = succeeded s
           \<and> (if attempts job + 1 \<ge> MAX_ATTEMPTS
               then job\<lparr>attempts := attempts job + 1, updated_at := clock s\<rparr>
                       \<lparr>status := Failed, updated_at := clock s + elapsed (env (processed s))\<rparr>
               else job\<lparr>attempts := attempts job + 1, updated_at := clock s\<rparr>)
                 \<in> set (books (db s'))
           \<and> rateLimitedUserIds s' = rateLimitedUserIds s
           \<and> downloadedPerUser s' = downloadedPerUser s"
proof -
  from iteration_copy_failure[where env = env, OF assms] obtain s' where
    s': "processQueue_iteration cfg tempDir env s = Continue s'"
      "failed s' = failed s + 1" "succeeded s' = succeeded s"
      "db s' = (if attempts job + 1 \<ge> MAX_ATTEMPTS
                       then markFailed (clock s + elapsed (env (processed s))) (bid job)
                              (incrementAttempts (clock s) (bid job) (db s))
                       else incrementAttempts (clock s) (bid job) (db s))"
      "rateLimitedUserIds s' = rateLimitedUserIds s"
      "downloadedPerUser s' = downloadedPerUser s"
    by blast
  note j = next_job_Some(1)[OF assms(2)]
  have "(if attempts job + 1 \<ge> MAX_ATTEMPTS
               then job\<lparr>attempts := attempts job + 1, updated_at := clock s\<rparr>
                       \<lparr>status := Failed, updated_at := clock s + elapsed (env (processed s))\<rparr>
               else job\<lparr>attempts := attempts job + 1, updated_at := clock s\<rparr>)
                 \<in> set (books (db s'))"
    using failed_row[OF j] by (simp add: s'(4))
  with s' show ?thesis by blast
qed

text \<open>
  On the example library the download of \<^verbatim>\<open>Dune\<close> succeeds (5 MB) and the copy to
  Alice's folder fails: the item counts as failed and the row has one attempt, is
  pending and has no \<open>downloaded_at\<close>.
\<close>

theorem copy_failure_fails_attempt_witness:
  "\<not> int (countDownloadsToday (clock (initial_state 1000 Map.empty library))
            (db (initial_state 1000 Map.empty library))) \<ge> MAX_DOWNLOADS_PER_DAY default_config
   \<and> next_job (initial_state 1000 Map.empty library) = Some dune
   \<and> eligible_users (initial_state 1000 Map.empty library) dune = [alice]
   \<and> search_term dune \<noteq> []
   \<and> fst (downloadBook tmp_dir (download (env_copy_fails 0)) detail_url dune Map.empty)
       = Inr (''/app/data/tmp/Frank Herbert - Dune.epub'', ''.epub'')
   \<and> copy_fails (env_copy_fails 0) (uid alice)
   \<and> failed (the_state (processQueue_iteration default_config tmp_dir env_copy_fails
                (initial_state 1000 Map.empty library))) = 1
   \<and> dune\<lparr>attempts := 1, updated_at := 1000\<rparr>
       \<in> set (books (db (the_state (processQueue_iteration default_config tmp_dir env_copy_fails
                (initial_state 1000 Map.empty library)))))"
proof -
  let ?s = "initial_state 1000 Map.empty library"
  have e0: "env_copy_fails (processed ?s) = env_copy_fails 0"
    and sr: "search_result (env_copy_fails (processed ?s)) = Some detail_url"
    and cf: "copy_fails (env_copy_fails 0) (uid alice)"
    by (simp_all add: env_copy_fails_def)
  have d: "fst (downloadBook tmp_dir (download (env_copy_fails (processed ?s))) detail_url dune
                 (files ?s)) = Inr (''/app/data/tmp/Frank Herbert - Dune.epub'', ''.epub'')"
    using good_download by (simp add: e0 library_state)
  have el: "eligible_users ?s dune \<noteq> []" by (simp add: library_eligible)
  have cp: "\<exists>u\<in>set (eligible_users ?s dune). copy_fails (env_copy_fails (processed ?s)) (uid u)"
    using cf by (simp add: library_eligible e0)
  from copy_failure_fails_attempt[where env = env_copy_fails,
         OF library_cap library_next_job el dune_search_term sr d cp]
  obtain s' where s': "processQueue_iteration default_config tmp_dir env_copy_fails ?s = Continue s'"
    "failed s' = failed ?s + 1"
    "dune\<lparr>attempts := attempts dune + 1, updated_at := clock ?s\<rparr> \<in> set (books (db s'))"
    using dune_attempts by auto
  have a0: "attempts dune + 1 = 1" by (simp add: dune_def new_book_def)
  from s' have "failed (the_state (processQueue_iteration default_config tmp_dir env_copy_fails ?s)) = 1"
    "dune\<lparr>attempts := 1, updated_at := 1000\<rparr>
       \<in> set (books (db (the_state (processQueue_iteration default_config tmp_dir env_copy_fails ?s))))"
    by (simp_all add: library_state a0)
  with library_cap library_next_job library_eligible dune_search_term good_download cf
  show ?thesis by blast
qed

text \<open>
  C1, as the specification words it, fails on that input: the download succeeded,
  one copy failed, and the book is not marked downloaded but left pending, the
  attempt recorded as a failure.
\<close>

theorem copy_failure_counterexample:
  "fst (downloadBook tmp_dir (download (env_copy_fails 0)) detail_url dune Map.empty)
     = Inr (''/app/data/tmp/Frank Herbert - Dune.epub'', ''.epub'')
   \<and> copy_fails (env_copy_fails 0) (uid alice)
   \<and> map status (books (db (the_state (processQueue_iteration default_config tmp_dir env_copy_fails
                (initial_state 1000 Map.empty library))))) = [Pending]
   \<and> map downloaded_at (books (db (the_state (processQueue_iteration default_config tmp_dir
                env_copy_fails (initial_state 1000 Map.empty library))))) = [None]
   \<and> failed (the_state (processQueue_iteration default_config tmp_dir env_copy_fails
                (initial_state 1000 Map.empty library))) = 1
   \<and> succeeded (the_state (processQueue_iteration default_config tmp_dir env_copy_fails
                (initial_state 1000 Map.empty library))) = 0"
proof -
  let ?s = "initial_state 1000 Map.empty library"
  have e0: "env_copy_fails (processed ?s) = env_copy_fails 0"
    and sr: "search_result (env_copy_fails (processed ?s)) = Some detail_url"
    and cf: "copy_fails (env_copy_fails 0) (uid alice)"
    by (simp_all add: env_copy_fails_def)
  have d: "fst (downloadBook tmp_dir (download (env_copy_fails (processed ?s))) detail_url dune
                 (files ?s)) = Inr (''/app/data/tmp/Frank Herbert - Dune.epub'', ''.epub'')"
    using good_download by (simp add: e0 library_state)
  have el: "eligible_users ?s dune \<noteq> []" by (simp add: library_eligible)
  have cp: "\<exists>u\<in>set (eligible_users ?s dune). copy_fails (env_copy_fails (processed ?s)) (uid u)"
    using cf by (simp add: library_eligible e0)
  from iteration_copy_failure[where env = env_copy_fails,
         OF library_cap library_next_job el dune_search_term sr d cp]
  obtain s' where s': "processQueue_iteration default_config tmp_dir env_copy_fails ?s = Continue s'"
    "failed s' = failed ?s + 1" "succeeded s' = succeeded ?s"
    "db s' = incrementAttempts 1000 1 library"
    using dune_attempts by (auto simp: library_state)
  from s' have
    "map status (books (db (the_state (processQueue_iteration default_config tmp_dir env_copy_fails ?s))))
       = [Pending]"
    "map downloaded_at (books (db (the_state (processQueue_iteration default_config tmp_dir
       env_copy_fails ?s)))) = [None]"
    "failed (the_state (processQueue_iteration default_config tmp_dir env_copy_fails ?s)) = 1"
    "succeeded (the_state (processQueue_iteration default_config tmp_dir env_copy_fails ?s)) = 0"
    by (simp_all add: library_state library_after_failure[unfolded One_nat_def])
  with good_download cf show ?thesis by blast
qed

section \<open>Properties of a whole cycle\<close>

lemma book_evolves_refl: "book_evolves b b"
  by (auto simp: book_evolves_def)

lemma book_evolves_trans:
  assumes "book_evolves a b" and "book_evolves b c"
  shows "book_evolves a c"
proof (cases "status a \<noteq> Pending \<or> attempts a \<ge> MAX_ATTEMPTS")
  case True
  with assms(1) have "b = a" by (auto simp: book_evolves_def)
  with assms(2) show ?thesis by simp
next
  case False
  note a = this
  show ?thesis
  proof (cases "status b \<noteq> Pending \<or> attempts b \<ge> MAX_ATTEMPTS")
    case True
    with assms(2) have "c = b" by (auto simp: book_evolves_def)
    with assms(1) show ?thesis by simp
  next
    case False
    with assms(2) have bc: "bid c = bid b" "attempts b \<le> attempts c" "attempts c \<le> MAX_ATTEMPTS"
      "status c = Failed \<longrightarrow> attempts c = MAX_ATTEMPTS"
      "attempts c \<ge> MAX_ATTEMPTS \<longrightarrow> status c \<noteq> Pending"
      "status c = Downloaded \<longrightarrow> downloaded_at c \<noteq> None"
      by (auto simp: book_evolves_def)
    from assms(1) have ab: "bid b = bid a" "attempts a \<le> attempts b"
      by (auto simp: book_evolves_def)
    from a have a': "status a = Pending" "attempts a < MAX_ATTEMPTS" by auto
    show ?thesis
      unfolding book_evolves_def using a' ab bc by (intro conjI impI) auto
  qed
qed

lemma store_evolves_refl: "store_evolves st st"
  by (simp add: store_evolves_def list_all2_same book_evolves_refl)

lemma store_evolves_trans:
  "store_evolves a b \<Longrightarrow> store_evolves b c \<Longrightarrow> store_evolves a c"
  unfolding store_evolves_def
  using list_all2_trans[of book_evolves book_evolves book_evolves] book_evolves_trans by blast

lemma list_all2_evolves_bids:
  "list_all2 book_evolves xs ys \<Longrightarrow> map bid ys = map bid xs"
  by (induction rule: list_all2_induct) (auto simp: book_evolves_def)

lemma store_evolves_bids:
  "store_evolves st st' \<Longrightarrow> map bid (books st') = map bid (books st)"
  unfolding store_evolves_def by (rule list_all2_evolves_bids)

text \<open>An update of the rows with the id of the selected job, on distinct ids.\<close>

lemma update_job_evolves:
  assumes d: "distinct (map bid xs)" and j: "job \<in> set xs"
    and g: "book_evolves job (g job)"
  shows "list_all2 book_evolves xs (map (\<lambda>b. if bid b = bid job then g b else b) xs)"
proof -
  have "\<forall>x\<in>set xs. book_evolves x (if bid x = bid job then g x else x)"
  proof
    fix x assume x: "x \<in> set xs"
    show "book_evolves x (if bid x = bid job then g x else x)"
    proof (cases "bid x = bid job")
      case True
      with d j x have "x = job" by (meson distinct_map inj_onD)
      with True g show ?thesis by simp
    next
      case False
      then show ?thesis by (simp add: book_evolves_refl)
    qed
  qed
  then show ?thesis by (simp add: list_all2_map2 list_all2_same)
qed

lemma iteration_evolves:
  assumes d: "distinct (map bid (books (db s)))"
    and it: "processQueue_iteration cfg tempDir env s = Continue s'"
  shows "store_evolves (db s) (db s')"
  using it
proof (cases rule: iteration_Continue_cases)
  case (skip job)
  then show ?thesis by (simp add: store_evolves_refl)
next
  case (retry job)
  note j = next_job_Some[OF retry(1)]
  show ?thesis
    unfolding store_evolves_def retry(3) books_incrementAttempts
    by (rule update_job_evolves[OF d j(1)])
       (use j retry(2) in \<open>auto simp: book_evolves_def\<close>)
next
  case (give_up job t)
  note j = next_job_Some[OF give_up(1)]
  show ?thesis
    unfolding store_evolves_def give_up(3) books_markFailed_increment
    by (rule update_job_evolves[OF d j(1)])
       (use j give_up(2) in \<open>auto simp: book_evolves_def\<close>)
next
  case (success job t f)
  note j = next_job_Some[OF success(1)]
  show ?thesis
    unfolding store_evolves_def success(2) books_markDownloaded_increment
    by (rule update_job_evolves[OF d j(1)])
       (use j in \<open>auto simp: book_evolves_def\<close>)
qed

lemma iteration_Break: "processQueue_iteration cfg tempDir env s = Break s' \<Longrightarrow> s' = s"
  by (auto simp: processQueue_iteration_def Let_def split: if_splits option.splits)

text \<open>
  An invariant \<open>I\<close> and a reflexive, transitive relation \<open>R\<close> that every
  iteration respects hold for the whole loop.
\<close>

lemma loop_invariant:
  assumes "I s"
    and "\<And>s s'. I s \<Longrightarrow> processQueue_iteration cfg tempDir env s = Continue s'
                   \<Longrightarrow> I s' \<and> R s s'"
    and "\<And>s. R s s"
    and "\<And>a b c. R a b \<Longrightarrow> R b c \<Longrightarrow> R a c"
  shows "I (processQueue_loop cfg tempDir env s) \<and> R s (processQueue_loop cfg tempDir env s)"
  using assms
proof (induction cfg tempDir env s rule: processQueue_loop.induct)
  case (1 cfg tempDir env s)
  note inv = "1.prems"(1) and step = "1.prems"(2) and refl = "1.prems"(3) and trans = "1.prems"(4)
  show ?case
  proof (cases "processQueue_iteration cfg tempDir env s")
    case (Break s')
    then have "processQueue_loop cfg tempDir env s = s"
      using iteration_Break[OF Break] by (simp add: processQueue_loop.simps)
    with inv refl show ?thesis by simp
  next
    case (Continue s')
    from step[OF inv Continue] have s': "I s'" "R s s'" by auto
    from "1.IH"[OF Continue s'(1) step refl trans] have
      l: "I (processQueue_loop cfg tempDir env s')" "R s' (processQueue_loop cfg tempDir env s')"
      by auto
    have e: "processQueue_loop cfg tempDir env s = processQueue_loop cfg tempDir env s'"
      using Continue by (simp add: processQueue_loop.simps)
    from trans[OF s'(2) l(2)] l(1) show ?thesis by (simp add: e)
  qed
qed

lemma processQueue_evolves:
  assumes d: "distinct (map bid (books st))"
  shows "store_evolves st (db (snd (processQueue cfg tempDir env now fls st)))"
proof (cases "int (countDownloadsToday now st) \<ge> MAX_DOWNLOADS_PER_DAY cfg")
  case True
  then show ?thesis
    by (simp add: processQueue_def Let_def initial_state_def store_evolves_refl)
next
  case False
  let ?s1 = "(initial_state now fls st)
               \<lparr>rateLimitedUserIds := foldl (limit_check cfg now st) [] (getUsers st)\<rparr>"
  have db1: "db ?s1 = st" by (simp add: initial_state_def)
  have "distinct (map bid (books (db (processQueue_loop cfg tempDir env ?s1))))
        \<and> store_evolves (db ?s1) (db (processQueue_loop cfg tempDir env ?s1))"
  proof (rule loop_invariant[where I = "\<lambda>s. distinct (map bid (books (db s)))"
                               and R = "\<lambda>s s'. store_evolves (db s) (db s')"])
    show "distinct (map bid (books (db ?s1)))" using d by (simp add: db1)
  next
    fix s s'
    assume i: "distinct (map bid (books (db s)))"
      and it: "processQueue_iteration cfg tempDir env s = Continue s'"
    from iteration_evolves[OF i it] have e: "store_evolves (db s) (db s')" .
    from store_evolves_bids[OF e] i
    show "distinct (map bid (books (db s'))) \<and> store_evolves (db s) (db s')"
      using e by simp
  next
    fix s show "store_evolves (db s) (db s)" by (rule store_evolves_refl)
  next
    fix a b c
    assume "store_evolves (db a) (db b)" "store_evolves (db b) (db c)"
    then show "store_evolves (db a) (db c)" by (rule store_evolves_trans)
  qed
  with False show ?thesis
    by (simp add: processQueue_def Let_def db1)
qed

lemma iteration_failed_row:
  assumes cap: "\<not> int (countDownloadsToday (clock s) (db s)) \<ge> MAX_DOWNLOADS_PER_DAY cfg"
    and job: "next_job s = Some job" and el: "eligible_users s job \<noteq> []"
    and f: "fst (try_attempt cfg tempDir (env (processed s)) job (eligible_users s job) s) \<noteq> None"
  shows "\<exists>s'. processQueue_iteration cfg tempDir env s = Continue s'
           \<and> (if attempts job + 1 = MAX_ATTEMPTS
               then \<exists>t. job\<lparr>attempts := attempts job + 1, updated_at := clock s\<rparr>
                           \<lparr>status := Failed, updated_at := t\<rparr> \<in> set (books (db s'))
               else job\<lparr>attempts := attempts job + 1, updated_at := clock s\<rparr>
                      \<in> set (books (db s')))"
proof -
  from f obtain err s1 where
    t: "try_attempt cfg tempDir (env (processed s)) job (eligible_users s job) s = (Some err, s1)"
    by (cases "try_attempt cfg tempDir (env (processed s)) job (eligible_users s job) s") auto
  from iteration_failure[where env = env, OF cap job el t] obtain s' where
    s': "processQueue_iteration cfg tempDir env s = Continue s'"
      "db s' = (if attempts job + 1 \<ge> MAX_ATTEMPTS
                then markFailed (clock s1) (bid job) (incrementAttempts (clock s) (bid job) (db s))
                else incrementAttempts (clock s) (bid job) (db s))"
    by blast
  note j = next_job_Some[OF job]
  from j(3) have eq: "(attempts job + 1 \<ge> MAX_ATTEMPTS) = (attempts job + 1 = MAX_ATTEMPTS)"
    by auto
  have "if attempts job + 1 = MAX_ATTEMPTS
        then \<exists>t. job\<lparr>attempts := attempts job + 1, updated_at := clock s\<rparr>
                    \<lparr>status := Failed, updated_at := t\<rparr> \<in> set (books (db s'))
        else job\<lparr>attempts := attempts job + 1, updated_at := clock s\<rparr> \<in> set (books (db s'))"
    using failed_row(1)[OF j(1), where ?t0.0 = "clock s"]
      failed_row(2)[OF j(1), where ?t0.0 = "clock s" and ?t1.0 = "clock s1"]
    by (auto simp: s'(2) eq)
  with s'(1) show ?thesis by blast
qed

text \<open>
  C2. Over a whole cycle on a store with distinct ids, every book evolves as
  \<open>book_evolves\<close> says: its attempts do not decrease and, when within the budget
  before, stay within it; a book that is downloaded or failed is left as it is; a
  pending book is failed afterwards only with its attempts at \<open>MAX_ATTEMPTS\<close>, and
  is not pending any more once its attempts have reached \<open>MAX_ATTEMPTS\<close>. The
  selection returns only pending books below the budget. An attempt that fails
  leaves the book failed exactly when the incremented attempts equal \<open>MAX_ATTEMPTS\<close>,
  and pending with the increment otherwise.
\<close>

theorem attempts_monotone_and_bounded:
  "(distinct (map bid (books st))
      \<longrightarrow> list_all2 book_evolves (books st)
            (books (db (snd (processQueue cfg tempDir env now fls st)))))
   \<and> (next_job s = Some job \<longrightarrow> status job = Pending \<and> attempts job < MAX_ATTEMPTS)
   \<and> (\<not> int (countDownloadsToday (clock s) (db s)) \<ge> MAX_DOWNLOADS_PER_DAY cfg
        \<and> next_job s = Some job \<and> eligible_users s job \<noteq> []
        \<and> fst (try_attempt cfg tempDir (env (processed s)) job (eligible_users s job) s) \<noteq> None
      \<longrightarrow> (\<exists>s'. processQueue_iteration cfg tempDir env s = Continue s'
             \<and> (if attempts job + 1 = MAX_ATTEMPTS
                 then \<exists>t. job\<lparr>attempts := attempts job + 1, updated_at := clock s\<rparr>
                             \<lparr>status := Failed, updated_at := t\<rparr> \<in> set (books (db s'))
                 else job\<lparr>attempts := attempts job + 1, updated_at := clock s\<rparr>
                        \<in> set (books (db s')))))"
proof -
  have a: "distinct (map bid (books st))
      \<longrightarrow> list_all2 book_evolves (books st)
            (books (db (snd (processQueue cfg tempDir env now fls st))))"
    using processQueue_evolves[of st cfg tempDir env now fls] by (simp add: store_evolves_def)
  have b: "next_job s = Some job \<longrightarrow> status job = Pending \<and> attempts job < MAX_ATTEMPTS"
    using next_job_Some(2,3)[of s job] by simp
  have c: "\<not> int (countDownloadsToday (clock s) (db s)) \<ge> MAX_DOWNLOADS_PER_DAY cfg
        \<and> next_job s = Some job \<and> eligible_users s job \<noteq> []
        \<and> fst (try_attempt cfg tempDir (env (processed s)) job (eligible_users s job) s) \<noteq> None
      \<longrightarrow> (\<exists>s'. processQueue_iteration cfg tempDir env s = Continue s'
             \<and> (if attempts job + 1 = MAX_ATTEMPTS
                 then \<exists>t. job\<lparr>attempts := attempts job + 1, updated_at := clock s\<rparr>
                             \<lparr>status := Failed, updated_at := t\<rparr> \<in> set (books (db s'))
                 else job\<lparr>attempts := attempts job + 1, updated_at := clock s\<rparr>
                        \<in> set (books (db s'))))"
    using iteration_failed_row[where env = env and s = s and cfg = cfg and job = job
            and tempDir = tempDir] by blast
  from a b c show ?thesis by (intro conjI)
qed

text \<open>
  C10. Neither form of the selection returns a book whose attempts have reached
  \<open>MAX_ATTEMPTS\<close>. On a store with distinct ids, a cycle leaves every pending row
  with attempts at or above \<open>MAX_ATTEMPTS\<close> exactly as it was: it is not attempted
  and it does not become failed.
\<close>

theorem exhausted_pending_book_is_left:
  "(getNextPending MAX_ATTEMPTS st = Some job
      \<longrightarrow> attempts job < MAX_ATTEMPTS \<and> status job = Pending)
   \<and> (getNextPendingNotIn MAX_ATTEMPTS skipped st = Some job
      \<longrightarrow> attempts job < MAX_ATTEMPTS \<and> status job = Pending \<and> bid job \<notin> set skipped)
   \<and> (distinct (map bid (books st))
      \<longrightarrow> length (books (db (snd (processQueue cfg tempDir env now fls st)))) = length (books st)
          \<and> (\<forall>n < length (books st).
                status (books st ! n) = Pending \<and> attempts (books st ! n) \<ge> MAX_ATTEMPTS
                \<longrightarrow> books (db (snd (processQueue cfg tempDir env now fls st))) ! n = books st ! n))"
proof -
  have a: "getNextPending MAX_ATTEMPTS st = Some job
      \<longrightarrow> attempts job < MAX_ATTEMPTS \<and> status job = Pending"
    using first_min_attempts_mem[of _ job] by (fastforce simp: getNextPending_def)
  have b: "getNextPendingNotIn MAX_ATTEMPTS skipped st = Some job
      \<longrightarrow> attempts job < MAX_ATTEMPTS \<and> status job = Pending \<and> bid job \<notin> set skipped"
    using first_min_attempts_mem[of _ job] by (fastforce simp: getNextPendingNotIn_def)
  have c: "distinct (map bid (books st))
      \<longrightarrow> length (books (db (snd (processQueue cfg tempDir env now fls st)))) = length (books st)
          \<and> (\<forall>n < length (books st).
                status (books st ! n) = Pending \<and> attempts (books st ! n) \<ge> MAX_ATTEMPTS
                \<longrightarrow> books (db (snd (processQueue cfg tempDir env now fls st))) ! n = books st ! n)"
  proof
    assume d: "distinct (map bid (books st))"
    let ?bs' = "books (db (snd (processQueue cfg tempDir env now fls st)))"
    from processQueue_evolves[OF d, of cfg tempDir env now fls]
    have l: "list_all2 book_evolves (books st) ?bs'" by (simp add: store_evolves_def)
    then have len: "length ?bs' = length (books st)" by (simp add: list_all2_lengthD)
    have "\<forall>n < length (books st).
            status (books st ! n) = Pending \<and> attempts (books st ! n) \<ge> MAX_ATTEMPTS
            \<longrightarrow> ?bs' ! n = books st ! n"
    proof (intro allI impI)
      fix n assume n: "n < length (books st)"
        and p: "status (books st ! n) = Pending \<and> attempts (books st ! n) \<ge> MAX_ATTEMPTS"
      from l n have "book_evolves (books st ! n) (?bs' ! n)"
        by (simp add: list_all2_conv_all_nth)
      with p show "?bs' ! n = books st ! n" by (simp add: book_evolves_def)
    qed
    with len show "length ?bs' = length (books st)
          \<and> (\<forall>n < length (books st).
                status (books st ! n) = Pending \<and> attempts (books st ! n) \<ge> MAX_ATTEMPTS
                \<longrightarrow> ?bs' ! n = books st ! n)" by simp
  qed
  from a b c show ?thesis by (intro conjI)
qed

lemma last_chance_books: "books last_chance = [last_dune]"
  and last_chance_ids: "distinct (map bid (books last_chance))"
  by (simp_all add: last_chance_def)

lemma last_dune_row: "status last_dune = Pending" "attempts last_dune = 4" "bid last_dune = 1"
  "attempts last_dune + 1 = MAX_ATTEMPTS"
  by (simp_all add: last_dune_def dune_def new_book_def MAX_ATTEMPTS_def)

lemma last_chance_cap:
  "\<not> int (countDownloadsToday (clock (initial_state 1000 Map.empty last_chance))
            (db (initial_state 1000 Map.empty last_chance))) \<ge> MAX_DOWNLOADS_PER_DAY default_config"
  by (simp add: initial_state_def countDownloadsToday_def last_chance_def downloaded_on_def
        last_dune_def dune_def new_book_def default_config_def)

lemma last_chance_next_job: "next_job (initial_state 1000 Map.empty last_chance) = Some last_dune"
  by (simp add: next_job_def initial_state_def getNextPending_def last_chance_def last_dune_def
        dune_def new_book_def MAX_ATTEMPTS_def)

lemma last_chance_eligible:
  "eligible_users (initial_state 1000 Map.empty last_chance) last_dune = [alice]"
  by (simp add: eligible_users_def initial_state_def getUsersForBook_def last_chance_def
        library_def last_dune_def dune_def new_book_def alice_def)

lemma last_dune_search_term: "search_term last_dune \<noteq> []"
  by code_simp

lemma last_chance_attempt_fails:
  "fst (try_attempt default_config tmp_dir (env_small_file (processed (initial_state 1000 Map.empty last_chance)))
         last_dune (eligible_users (initial_state 1000 Map.empty last_chance) last_dune)
         (initial_state 1000 Map.empty last_chance)) \<noteq> None"
proof -
  have h: "http_result (download (env_small_file 0)) = Some (''.epub'', Some 900)"
    and sr: "search_result (env_small_file 0) = Some detail_url"
    by (simp_all add: env_small_file_def)
  note d = downloadBook_direct_small[OF detail_url_direct h, of tmp_dir last_dune
             "files (initial_state 1000 Map.empty last_chance)"]
  have p: "processed (initial_state 1000 Map.empty last_chance) = 0"
    by (simp add: initial_state_def)
  show ?thesis
    unfolding p
    by (subst try_attempt_download_error[OF last_dune_search_term sr d]) simp_all
qed


text \<open>
  The library whose book has 4 attempts, with a download of 900 bytes: the book is
  selected, the failed attempt is its fifth and leaves it failed with 5 attempts, and
  after the whole cycle its attempts are between 4 and \<open>MAX_ATTEMPTS\<close>.
\<close>

theorem attempts_monotone_and_bounded_witness:
  "distinct (map bid (books last_chance))
   \<and> next_job (initial_state 1000 Map.empty last_chance) = Some last_dune
   \<and> status last_dune = Pending \<and> attempts last_dune < MAX_ATTEMPTS
   \<and> attempts last_dune + 1 = MAX_ATTEMPTS
   \<and> (\<exists>b'. books (db (snd (processQueue default_config tmp_dir env_small_file 1000 Map.empty
                              last_chance))) = [b']
           \<and> bid b' = 1 \<and> 4 \<le> attempts b' \<and> attempts b' \<le> MAX_ATTEMPTS)
   \<and> (\<exists>s'. processQueue_iteration default_config tmp_dir env_small_file
               (initial_state 1000 Map.empty last_chance) = Continue s'
           \<and> (\<exists>t. last_dune\<lparr>attempts := attempts last_dune + 1, updated_at := 1000\<rparr>
                       \<lparr>status := Failed, updated_at := t\<rparr> \<in> set (books (db s'))))"
proof -
  let ?s = "initial_state 1000 Map.empty last_chance"
  note th = attempts_monotone_and_bounded[where st = last_chance and cfg = default_config
      and tempDir = tmp_dir and env = env_small_file and now = 1000 and fls = Map.empty
      and s = ?s and job = last_dune]
  from th last_chance_ids
  have "list_all2 book_evolves [last_dune]
          (books (db (snd (processQueue default_config tmp_dir env_small_file 1000 Map.empty
                             last_chance))))"
    by (simp add: last_chance_books)
  then obtain b' where
    b': "books (db (snd (processQueue default_config tmp_dir env_small_file 1000 Map.empty
                           last_chance))) = [b']"
    and e: "book_evolves last_dune b'"
    by (auto simp: list_all2_Cons1)
  from e last_dune_row have 1: "bid b' = 1" "4 \<le> attempts b'" "attempts b' \<le> MAX_ATTEMPTS"
    by (auto simp: book_evolves_def MAX_ATTEMPTS_def)
  from th last_chance_next_job
  have 2: "status last_dune = Pending" "attempts last_dune < MAX_ATTEMPTS" by simp_all
  have el: "eligible_users ?s last_dune \<noteq> []" by (simp add: last_chance_eligible)
  have ck: "clock ?s = 1000" by (simp add: initial_state_def)
  from th last_chance_cap last_chance_next_job el last_chance_attempt_fails last_dune_row(4)
  have 3: "\<exists>s'. processQueue_iteration default_config tmp_dir env_small_file ?s = Continue s'
           \<and> (\<exists>t. last_dune\<lparr>attempts := attempts last_dune + 1, updated_at := 1000\<rparr>
                       \<lparr>status := Failed, updated_at := t\<rparr> \<in> set (books (db s')))"
    by (simp add: ck)
  from last_chance_ids last_chance_next_job 2 last_dune_row(4) b' 1 3 show ?thesis by blast
qed

lemma stuck_library_row:
  "distinct (map bid (books stuck_library))" "0 < length (books stuck_library)"
  "books stuck_library ! 0 = stuck_dune"
  "status stuck_dune = Pending" "attempts stuck_dune \<ge> MAX_ATTEMPTS"
  by (simp_all add: stuck_library_def stuck_dune_def dune_def new_book_def MAX_ATTEMPTS_def)

lemma stuck_library_not_selected: "getNextPending MAX_ATTEMPTS stuck_library = None"
  by (simp add: getNextPending_def stuck_library_def stuck_dune_def dune_def new_book_def
        MAX_ATTEMPTS_def)

lemma library_selected:
  "getNextPending MAX_ATTEMPTS library = Some dune"
  "getNextPendingNotIn MAX_ATTEMPTS [7] library = Some dune"
  by (simp_all add: getNextPending_def getNextPendingNotIn_def library_def dune_def new_book_def
        MAX_ATTEMPTS_def)

text \<open>
  A pending book with 5 attempts exists in \<open>stuck_library\<close>: it is not selected,
  and after a cycle the row is the same, still pending. The book of \<open>library\<close> is
  selected, with its attempts below the budget.
\<close>

theorem exhausted_pending_book_is_left_witness:
  "getNextPending MAX_ATTEMPTS library = Some dune
   \<and> getNextPendingNotIn MAX_ATTEMPTS [7] library = Some dune
   \<and> attempts dune < MAX_ATTEMPTS \<and> status dune = Pending \<and> bid dune \<notin> set [7]
   \<and> distinct (map bid (books stuck_library))
   \<and> 0 < length (books stuck_library)
   \<and> status (books stuck_library ! 0) = Pending
   \<and> attempts (books stuck_library ! 0) \<ge> MAX_ATTEMPTS
   \<and> getNextPending MAX_ATTEMPTS stuck_library = None
   \<and> books (db (snd (processQueue default_config tmp_dir env_small_file 1000 Map.empty
                       stuck_library))) ! 0 = stuck_dune
   \<and> status stuck_dune = Pending"
proof -
  note th1 = exhausted_pending_book_is_left[where st = library and job = dune and skipped = "[7]"]
  from th1 library_selected
  have 1: "attempts dune < MAX_ATTEMPTS" "status dune = Pending" "bid dune \<notin> set [7]"
    by blast+
  note th2 = exhausted_pending_book_is_left[where st = stuck_library and cfg = default_config
      and tempDir = tmp_dir and env = env_small_file and now = 1000 and fls = Map.empty]
  from th2 stuck_library_row
  have 2: "books (db (snd (processQueue default_config tmp_dir env_small_file 1000 Map.empty
                       stuck_library))) ! 0 = stuck_dune"
    by auto
  from library_selected 1 stuck_library_row stuck_library_not_selected 2 show ?thesis
    by simp
qed

section \<open>The global daily cap\<close>

lemma iteration_Continue_cap:
  "processQueue_iteration cfg tempDir env s = Continue s'
   \<Longrightarrow> int (countDownloadsToday (clock s) (db s)) < MAX_DOWNLOADS_PER_DAY cfg"
  by (auto simp: processQueue_iteration_def Let_def split: if_splits)

lemma filter_map_le:
  assumes "\<And>x. P (g x) \<Longrightarrow> P x"
  shows "length (filter P (map g xs)) \<le> length (filter P xs)"
  using assms by (induction xs) auto

lemma count_incrementAttempts:
  "countDownloadsToday t' (incrementAttempts t0 i st) = countDownloadsToday t' st"
  by (rule countDownloadsToday_cong[where extra = "[]"
        and g = "\<lambda>b. if bid b = i then b\<lparr>attempts := attempts b + 1, updated_at := t0\<rparr> else b"])
     (simp_all add: books_incrementAttempts downloaded_on_def)

lemma count_markFailed_le:
  "countDownloadsToday t' (markFailed t i st) \<le> countDownloadsToday t' st"
  unfolding countDownloadsToday_def markFailed_def books_update_where_id
  by (rule filter_map_le) (auto simp: downloaded_on_def split: if_splits)

lemma filter_update_job:
  assumes "distinct (map bid xs)" and "j \<in> set xs" and "\<not> P j"
  shows "length (filter P (map (\<lambda>b. if bid b = bid j then g b else b) xs))
         = length (filter P xs) + (if P (g j) then 1 else 0)"
  using assms
proof (induction xs)
  case Nil
  then show ?case by simp
next
  case (Cons x xs)
  show ?case
  proof (cases "bid x = bid j")
    case True
    with Cons.prems have xj: "x = j"
      by (metis distinct.simps(2) image_eqI list.simps(9) set_ConsD set_map)
    from True Cons.prems(1) have "bid j \<notin> bid ` set xs" by simp
    then have "\<forall>b\<in>set xs. bid b \<noteq> bid j" by (metis image_eqI)
    then have "map (\<lambda>b. if bid b = bid j then g b else b) xs = xs"
      by (simp add: map_idI)
    with xj Cons.prems(3) show ?thesis by simp
  next
    case False
    with Cons.prems have "j \<in> set xs" by auto
    with Cons False show ?thesis by simp
  qed
qed

lemma count_markDownloaded_increment:
  assumes "distinct (map bid (books st))" and "job \<in> set (books st)" and "status job = Pending"
  shows "countDownloadsToday t' (markDownloaded t f (bid job) (incrementAttempts t0 (bid job) st))
         = countDownloadsToday t' st + (if date t = date t' then 1 else 0)"
proof -
  have np: "\<not> downloaded_on (date t') job" using assms(3) by (simp add: downloaded_on_def)
  show ?thesis
    unfolding countDownloadsToday_def books_markDownloaded_increment
    by (subst filter_update_job[where P = "downloaded_on (date t')", OF assms(1,2) np])
       (simp add: downloaded_on_def)
qed

lemma date_mono: "a \<le> b \<Longrightarrow> date a \<le> date b"
  by (simp add: date_def div_le_mono)

lemma iteration_within_cap:
  assumes inv: "within_cap (MAX_DOWNLOADS_PER_DAY cfg) (clock s) (db s)"
    and it: "processQueue_iteration cfg tempDir env s = Continue s'"
  shows "within_cap (MAX_DOWNLOADS_PER_DAY cfg) (clock s') (db s') \<and> clock s \<le> clock s'"
proof -
  let ?cap = "MAX_DOWNLOADS_PER_DAY cfg"
  from inv have d: "distinct (map bid (books (db s)))"
    and le: "\<And>t. int (countDownloadsToday t (db s)) \<le> ?cap"
    and fut: "\<And>t. date (clock s) < date t \<Longrightarrow> countDownloadsToday t (db s) = 0"
    by (auto simp: within_cap_def)
  note chk = iteration_Continue_cap[OF it]
  from store_evolves_bids[OF iteration_evolves[OF d it]] d
  have d': "distinct (map bid (books (db s')))" by simp
  from it show ?thesis
  proof (cases rule: iteration_Continue_cases)
    case (skip job)
    with inv show ?thesis by (simp add: within_cap_def)
  next
    case (retry job)
    have c: "\<And>t. countDownloadsToday t (db s') = countDownloadsToday t (db s)"
      by (simp add: retry(3) count_incrementAttempts)
    have "\<And>t. date (clock s') < date t \<Longrightarrow> countDownloadsToday t (db s') = 0"
      using fut date_mono[OF retry(5)] by (simp add: c)
    with d' le retry(5) show ?thesis by (simp add: within_cap_def c)
  next
    case (give_up job t0)
    have c: "\<And>t. countDownloadsToday t (db s') \<le> countDownloadsToday t (db s)"
      using count_markFailed_le[of _ t0 "bid job" "incrementAttempts (clock s) (bid job) (db s)"]
      by (simp add: give_up(3) count_incrementAttempts)
    have f: "\<And>t. date (clock s') < date t \<Longrightarrow> countDownloadsToday t (db s') = 0"
    proof -
      fix t assume "date (clock s') < date t"
      with date_mono[OF give_up(5)] have "countDownloadsToday t (db s) = 0" by (intro fut) simp
      with c[of t] show "countDownloadsToday t (db s') = 0" by simp
    qed
    have l: "\<And>t. int (countDownloadsToday t (db s')) \<le> ?cap"
    proof -
      fix t
      from c[of t] le[of t] show "int (countDownloadsToday t (db s')) \<le> ?cap" by simp
    qed
    from d' l f give_up(5) show ?thesis by (simp add: within_cap_def)
  next
    case (success job t0 f)
    note j = next_job_Some[OF success(1)]
    have c: "\<And>t. countDownloadsToday t (db s')
               = countDownloadsToday t (db s) + (if date t0 = date t then 1 else 0)"
      by (simp add: success(2) count_markDownloaded_increment[OF d j(1,2)])
    have l: "\<And>t. int (countDownloadsToday t (db s')) \<le> ?cap"
    proof -
      fix t
      show "int (countDownloadsToday t (db s')) \<le> ?cap"
      proof (cases "date t0 = date t")
        case False
        with c[of t] le[of t] show ?thesis by simp
      next
        case True
        show ?thesis
        proof (cases "date (clock s) < date t")
          case True
          from fut[OF True] chk c[of t] show ?thesis by simp
        next
          case False
          with True date_mono[OF success(4)] have "date t = date (clock s)" by simp
          then have "countDownloadsToday t (db s) = countDownloadsToday (clock s) (db s)"
            by (simp add: countDownloadsToday_def)
          with chk c[of t] show ?thesis by simp
        qed
      qed
    qed
    have fu: "\<And>t. date (clock s') < date t \<Longrightarrow> countDownloadsToday t (db s') = 0"
    proof -
      fix t assume a: "date (clock s') < date t"
      with date_mono[OF success(5)] have n: "date t0 \<noteq> date t" by simp
      from a date_mono[OF success(4)] date_mono[OF success(5)]
      have "date (clock s) < date t" by simp
      from fut[OF this] n c[of t] show "countDownloadsToday t (db s') = 0" by simp
    qed
    from success(4,5) have "clock s \<le> clock s'" by simp
    with d' l fu show ?thesis by (simp add: within_cap_def)
  qed
qed

lemma processQueue_within_cap:
  assumes "within_cap (MAX_DOWNLOADS_PER_DAY cfg) now st"
  shows "\<forall>t. int (countDownloadsToday t (db (snd (processQueue cfg tempDir env now fls st))))
              \<le> MAX_DOWNLOADS_PER_DAY cfg"
proof (cases "int (countDownloadsToday now st) \<ge> MAX_DOWNLOADS_PER_DAY cfg")
  case True
  with assms show ?thesis
    by (simp add: processQueue_def Let_def initial_state_def within_cap_def)
next
  case False
  let ?s1 = "(initial_state now fls st)
               \<lparr>rateLimitedUserIds := foldl (limit_check cfg now st) [] (getUsers st)\<rparr>"
  have s1: "db ?s1 = st" "clock ?s1 = now" by (simp_all add: initial_state_def)
  have "within_cap (MAX_DOWNLOADS_PER_DAY cfg) (clock (processQueue_loop cfg tempDir env ?s1))
          (db (processQueue_loop cfg tempDir env ?s1))
        \<and> clock ?s1 \<le> clock (processQueue_loop cfg tempDir env ?s1)"
    by (rule loop_invariant[where I = "\<lambda>s. within_cap (MAX_DOWNLOADS_PER_DAY cfg) (clock s) (db s)"
                               and R = "\<lambda>s s'. clock s \<le> clock s'"])
       (use assms in \<open>auto simp: s1 dest: iteration_within_cap\<close>)
  with False show ?thesis
    by (simp add: processQueue_def Let_def within_cap_def)
qed

lemma processQueue_cap_reached:
  assumes "int (countDownloadsToday now st) \<ge> MAX_DOWNLOADS_PER_DAY cfg"
  shows "processQueue cfg tempDir env now fls st = (None, initial_state now fls st)"
  using assms by (simp add: processQueue_def Let_def)

text \<open>
  C3, as the code has it. The day of the cap is the UTC day of SQLite's
  \<^verbatim>\<open>date('now')\<close>. When the count of books downloaded on the current UTC day has
  reached the global cap at the start of a cycle, \<^verbatim>\<open>processQueue\<close> returns at
  once: no attempt is made, and the store and the files are as they were. The same
  test stands at the head of every iteration and stops the loop. On a store with
  distinct ids, where no UTC day exceeds the cap and no download is dated after
  today, and with a clock that only moves forward, no UTC day exceeds the cap after
  the cycle.
\<close>

theorem daily_cap_respected:
  "(int (countDownloadsToday now st) \<ge> MAX_DOWNLOADS_PER_DAY cfg
      \<longrightarrow> fst (processQueue cfg tempDir env now fls st) = None
          \<and> db (snd (processQueue cfg tempDir env now fls st)) = st
          \<and> files (snd (processQueue cfg tempDir env now fls st)) = fls
          \<and> processed (snd (processQueue cfg tempDir env now fls st)) = 0)
   \<and> (int (countDownloadsToday (clock s) (db s)) \<ge> MAX_DOWNLOADS_PER_DAY cfg
      \<longrightarrow> processQueue_iteration cfg tempDir env s = Break s)
   \<and> (within_cap (MAX_DOWNLOADS_PER_DAY cfg) now st
      \<longrightarrow> (\<forall>t. int (countDownloadsToday t (db (snd (processQueue cfg tempDir env now fls st))))
               \<le> MAX_DOWNLOADS_PER_DAY cfg))"
proof -
  have a: "int (countDownloadsToday now st) \<ge> MAX_DOWNLOADS_PER_DAY cfg
      \<longrightarrow> fst (processQueue cfg tempDir env now fls st) = None
          \<and> db (snd (processQueue cfg tempDir env now fls st)) = st
          \<and> files (snd (processQueue cfg tempDir env now fls st)) = fls
          \<and> processed (snd (processQueue cfg tempDir env now fls st)) = 0"
    by (simp add: processQueue_cap_reached initial_state_def)
  have b: "int (countDownloadsToday (clock s) (db s)) \<ge> MAX_DOWNLOADS_PER_DAY cfg
      \<longrightarrow> processQueue_iteration cfg tempDir env s = Break s"
    by (simp add: iteration_cap_reached)
  have c: "within_cap (MAX_DOWNLOADS_PER_DAY cfg) now st
      \<longrightarrow> (\<forall>t. int (countDownloadsToday t (db (snd (processQueue cfg tempDir env now fls st))))
               \<le> MAX_DOWNLOADS_PER_DAY cfg)"
    using processQueue_within_cap by blast
  from a b c show ?thesis by (intro conjI)
qed

lemma downloaded_on_done_book: "downloaded_on d (done_book i) = (d = date 1000)"
  by (auto simp: downloaded_on_def done_book_def)

lemma full_library_count: "countDownloadsToday 1000 full_library = 50"
proof -
  have a: "length (filter (downloaded_on (date 1000)) (map done_book [1..<51])) = 50"
    by (simp add: filter_map o_def downloaded_on_done_book)
  have b: "\<not> downloaded_on (date 1000) (dune\<lparr>bid := 51\<rparr>)"
    by (simp add: downloaded_on_def dune_def new_book_def)
  have "countDownloadsToday 1000 full_library
        = length (filter (downloaded_on (date 1000)) (map done_book [1..<51]))"
    unfolding countDownloadsToday_def full_library_def using b by (simp del: filter_map upt_Suc)
  with a show ?thesis by simp
qed

lemma library_within_cap: "within_cap (MAX_DOWNLOADS_PER_DAY default_config) 1000 library"
  by (simp add: within_cap_def countDownloadsToday_def library_def downloaded_on_def dune_def
        new_book_def default_config_def)

section \<open>The per-user daily cap\<close>

lemma set_foldl_limit_check:
  "set (foldl (limit_check cfg now st) acc us)
   = set acc \<union> {uid u |u. u \<in> set us
                  \<and> int (countUserDownloadsToday now (uid u) st) \<ge> MAX_DOWNLOADS_PER_USER_PER_DAY cfg}"
  by (induction us arbitrary: acc) (auto simp: limit_check_def Set_insert_def Let_def)

lemma set_foldl_limit_refresh:
  "set (foldl (limit_refresh cfg now st) acc us)
   = set acc \<union> {uid u |u. u \<in> set us
                  \<and> int (countUserDownloadsToday now (uid u) st) \<ge> MAX_DOWNLOADS_PER_USER_PER_DAY cfg}"
  by (induction us arbitrary: acc)
     (auto simp: limit_refresh_def limit_check_def Set_insert_def Let_def)

lemma eligible_users_empty:
  "eligible_users s job = []
   \<longleftrightarrow> (\<forall>u \<in> set (getUsersForBook (bid job) (db s)). uid u \<in> set (rateLimitedUserIds s))"
  by (auto simp: eligible_users_def Let_def filter_empty_conv)

lemma processQueue_starts:
  assumes "\<not> int (countDownloadsToday now st) \<ge> MAX_DOWNLOADS_PER_DAY cfg"
  shows "\<exists>s1. snd (processQueue cfg tempDir env now fls st) = processQueue_loop cfg tempDir env s1
           \<and> db s1 = st \<and> clock s1 = now \<and> skippedBookIds s1 = [] \<and> processed s1 = 0
           \<and> set (rateLimitedUserIds s1)
               = {uid u |u. u \<in> set (users st)
                    \<and> int (countUserDownloadsToday now (uid u) st)
                        \<ge> MAX_DOWNLOADS_PER_USER_PER_DAY cfg}"
  using assms
  by (intro exI[of _ "(initial_state now fls st)
                        \<lparr>rateLimitedUserIds := foldl (limit_check cfg now st) [] (getUsers st)\<rparr>"])
     (simp add: processQueue_def Let_def initial_state_def set_foldl_limit_check getUsers_def)

lemma skipped_next_job:
  assumes "next_job s = Some job"
  shows "next_job (s\<lparr>skippedBookIds := skippedBookIds s @ [bid job],
                      skippedLimit := skippedLimit s + 1\<rparr>)
         = getNextPendingNotIn MAX_ATTEMPTS (skippedBookIds s @ [bid job]) (db s)"
  by (simp add: next_job_def)

lemma getNextPendingNotIn_Some:
  assumes "getNextPendingNotIn m skipped st = Some j"
  shows "j \<in> set (books st)" "status j = Pending" "attempts j < m" "bid j \<notin> set skipped"
    and "\<forall>b \<in> set (books st). status b = Pending \<and> attempts b < m \<and> bid b \<notin> set skipped
           \<longrightarrow> attempts j \<le> attempts b"
  using first_min_attempts_mem[OF assms[unfolded getNextPendingNotIn_def]]
    first_min_attempts_least[OF assms[unfolded getNextPendingNotIn_def]]
  by auto

lemma iteration_skips_limited:
  assumes cap: "\<not> int (countDownloadsToday (clock s) (db s)) \<ge> MAX_DOWNLOADS_PER_DAY cfg"
    and job: "next_job s = Some job"
    and lim: "\<forall>u \<in> set (getUsersForBook (bid job) (db s)). uid u \<in> set (rateLimitedUserIds s)"
  shows "\<exists>s'. processQueue_iteration cfg tempDir env s = Continue s'
           \<and> db s' = db s \<and> processed s' = processed s \<and> failed s' = failed s
           \<and> skippedBookIds s' = skippedBookIds s @ [bid job]
           \<and> skippedLimit s' = skippedLimit s + 1
           \<and> rateLimitedUserIds s' = rateLimitedUserIds s
           \<and> next_job s' = getNextPendingNotIn MAX_ATTEMPTS (skippedBookIds s @ [bid job]) (db s)
           \<and> (\<forall>j'. next_job s' = Some j'
                 \<longrightarrow> bid j' \<noteq> bid job \<and> status j' = Pending \<and> attempts j' < MAX_ATTEMPTS
                     \<and> (\<forall>b \<in> set (books (db s)).
                           status b = Pending \<and> attempts b < MAX_ATTEMPTS
                           \<and> bid b \<notin> set (skippedBookIds s @ [bid job])
                           \<longrightarrow> attempts j' \<le> attempts b))"
proof -
  let ?s' = "s\<lparr>skippedBookIds := skippedBookIds s @ [bid job], skippedLimit := skippedLimit s + 1\<rparr>"
  from lim have el: "eligible_users s job = []" by (simp add: eligible_users_empty)
  note it = iteration_skip[OF cap job el, of tempDir env]
  note nj = skipped_next_job[OF job]
  have "\<forall>j'. next_job ?s' = Some j'
          \<longrightarrow> bid j' \<noteq> bid job \<and> status j' = Pending \<and> attempts j' < MAX_ATTEMPTS
              \<and> (\<forall>b \<in> set (books (db s)).
                    status b = Pending \<and> attempts b < MAX_ATTEMPTS
                    \<and> bid b \<notin> set (skippedBookIds s @ [bid job])
                    \<longrightarrow> attempts j' \<le> attempts b)"
  proof (intro allI impI)
    fix j' assume "next_job ?s' = Some j'"
    then have g: "getNextPendingNotIn MAX_ATTEMPTS (skippedBookIds s @ [bid job]) (db s) = Some j'"
      unfolding nj .
    from getNextPendingNotIn_Some[OF g]
    show "bid j' \<noteq> bid job \<and> status j' = Pending \<and> attempts j' < MAX_ATTEMPTS
              \<and> (\<forall>b \<in> set (books (db s)).
                    status b = Pending \<and> attempts b < MAX_ATTEMPTS
                    \<and> bid b \<notin> set (skippedBookIds s @ [bid job])
                    \<longrightarrow> attempts j' \<le> attempts b)"
      by auto
  qed
  with it nj show ?thesis by (intro exI[of _ ?s']) simp
qed

lemma iteration_failure_keeps_limits:
  assumes cap: "\<not> int (countDownloadsToday (clock s) (db s)) \<ge> MAX_DOWNLOADS_PER_DAY cfg"
    and job: "next_job s = Some job" and el: "eligible_users s job \<noteq> []"
    and f: "fst (try_attempt cfg tempDir (env (processed s)) job (eligible_users s job) s) \<noteq> None"
  shows "\<exists>s'. processQueue_iteration cfg tempDir env s = Continue s'
           \<and> rateLimitedUserIds s' = rateLimitedUserIds s
           \<and> skippedBookIds s' = skippedBookIds s \<and> processed s' = processed s + 1"
proof -
  from f obtain err s1 where
    t: "try_attempt cfg tempDir (env (processed s)) job (eligible_users s job) s = (Some err, s1)"
    by (cases "try_attempt cfg tempDir (env (processed s)) job (eligible_users s job) s") auto
  from iteration_failure[where env = env, OF cap job el t] show ?thesis by blast
qed

lemma iteration_success_refreshes:
  assumes cap: "\<not> int (countDownloadsToday (clock s) (db s)) \<ge> MAX_DOWNLOADS_PER_DAY cfg"
    and job: "next_job s = Some job" and el: "eligible_users s job \<noteq> []"
    and f: "fst (try_attempt cfg tempDir (env (processed s)) job (eligible_users s job) s) = None"
  shows "\<exists>s' t f. processQueue_iteration cfg tempDir env s = Continue s'
           \<and> db s' = markDownloaded t f (bid job) (incrementAttempts (clock s) (bid job) (db s))
           \<and> processed s' = processed s + 1
           \<and> set (rateLimitedUserIds s')
               = set (rateLimitedUserIds s)
                 \<union> {uid u |u. u \<in> set (eligible_users s job)
                      \<and> int (countUserDownloadsToday t (uid u) (db s'))
                          \<ge> MAX_DOWNLOADS_PER_USER_PER_DAY cfg}"
proof -
  from f obtain s1 where
    t: "try_attempt cfg tempDir (env (processed s)) job (eligible_users s job) s = (None, s1)"
    by (cases "try_attempt cfg tempDir (env (processed s)) job (eligible_users s job) s") auto
  from iteration_success[where env = env, OF cap job el t] obtain s' f where
    s': "processQueue_iteration cfg tempDir env s = Continue s'"
      "db s' = markDownloaded (clock s1) f (bid job) (incrementAttempts (clock s) (bid job) (db s))"
      "processed s' = processed s + 1"
      "rateLimitedUserIds s'
         = foldl (limit_refresh cfg (clock s1) (db s')) (rateLimitedUserIds s) (eligible_users s job)"
    by blast
  show ?thesis
    by (intro exI[of _ s'] exI[of _ "clock s1"] exI[of _ f])
       (simp add: s'(1,3) s'(2)[symmetric] s'(4) set_foldl_limit_refresh)
qed

text \<open>
  C4. A cycle that starts below the global cap enters the loop with the set of the
  users whose count of the day has reached the per-user cap. When every user linked
  to the selected book is in the set, the iteration only appends the book to the
  cycle's skipped list: the store, and so the attempts, and the processed counter
  stay, and the next selection excludes the book and returns a pending book of least
  attempts among the others. A failed item leaves the set as it is. A successful
  item adds to the set the eligible users of the book whose count, taken on the
  store after \<^verbatim>\<open>markDownloaded\<close> and at its time, has reached the cap.
\<close>

theorem rate_limited_book_is_skipped:
  "(\<not> int (countDownloadsToday now st) \<ge> MAX_DOWNLOADS_PER_DAY cfg
      \<longrightarrow> (\<exists>s1. snd (processQueue cfg tempDir env now fls st) = processQueue_loop cfg tempDir env s1
             \<and> db s1 = st \<and> clock s1 = now \<and> skippedBookIds s1 = [] \<and> processed s1 = 0
             \<and> set (rateLimitedUserIds s1)
                 = {uid u |u. u \<in> set (users st)
                      \<and> int (countUserDownloadsToday now (uid u) st)
                          \<ge> MAX_DOWNLOADS_PER_USER_PER_DAY cfg}))
   \<and> (\<not> int (countDownloadsToday (clock s) (db s)) \<ge> MAX_DOWNLOADS_PER_DAY cfg
        \<and> next_job s = Some job
        \<and> (\<forall>u \<in> set (getUsersForBook (bid job) (db s)). uid u \<in> set (rateLimitedUserIds s))
      \<longrightarrow> (\<exists>s'. processQueue_iteration cfg tempDir env s = Continue s'
             \<and> db s' = db s \<and> processed s' = processed s \<and> failed s' = failed s
             \<and> skippedBookIds s' = skippedBookIds s @ [bid job]
             \<and> skippedLimit s' = skippedLimit s + 1
             \<and> rateLimitedUserIds s' = rateLimitedUserIds s
             \<and> next_job s' = getNextPendingNotIn MAX_ATTEMPTS (skippedBookIds s @ [bid job]) (db s)
             \<and> (\<forall>j'. next_job s' = Some j'
                   \<longrightarrow> bid j' \<noteq> bid job \<and> status j' = Pending \<and> attempts j' < MAX_ATTEMPTS
                       \<and> (\<forall>b \<in> set (books (db s)).
                             status b = Pending \<and> attempts b < MAX_ATTEMPTS
                             \<and> bid b \<notin> set (skippedBookIds s @ [bid job])
                             \<longrightarrow> attempts j' \<le> attempts b))))
   \<and> (\<not> int (countDownloadsToday (clock s) (db s)) \<ge> MAX_DOWNLOADS_PER_DAY cfg
        \<and> next_job s = Some job \<and> eligible_users s job \<noteq> []
        \<and> fst (try_attempt cfg tempDir (env (processed s)) job (eligible_users s job) s) \<noteq> None
      \<longrightarrow> (\<exists>s'. processQueue_iteration cfg tempDir env s = Continue s'
             \<and> rateLimitedUserIds s' = rateLimitedUserIds s
             \<and> skippedBookIds s' = skippedBookIds s \<and> processed s' = processed s + 1))
   \<and> (\<not> int (countDownloadsToday (clock s) (db s)) \<ge> MAX_DOWNLOADS_PER_DAY cfg
        \<and> next_job s = Some job \<and> eligible_users s job \<noteq> []
        \<and> fst (try_attempt cfg tempDir (env (processed s)) job (eligible_users s job) s) = None
      \<longrightarrow> (\<exists>s' t f. processQueue_iteration cfg tempDir env s = Continue s'
             \<and> db s' = markDownloaded t f (bid job) (incrementAttempts (clock s) (bid job) (db s))
             \<and> processed s' = processed s + 1
             \<and> set (rateLimitedUserIds s')
                 = set (rateLimitedUserIds s)
                   \<union> {uid u |u. u \<in> set (eligible_users s job)
                        \<and> int (countUserDownloadsToday t (uid u) (db s'))
                            \<ge> MAX_DOWNLOADS_PER_USER_PER_DAY cfg}))"
proof (intro conjI impI)
  assume "\<not> int (countDownloadsToday now st) \<ge> MAX_DOWNLOADS_PER_DAY cfg"
  then show "\<exists>s1. snd (processQueue cfg tempDir env now fls st) = processQueue_loop cfg tempDir env s1
             \<and> db s1 = st \<and> clock s1 = now \<and> skippedBookIds s1 = [] \<and> processed s1 = 0
             \<and> set (rateLimitedUserIds s1)
                 = {uid u |u. u \<in> set (users st)
                      \<and> int (countUserDownloadsToday now (uid u) st)
                          \<ge> MAX_DOWNLOADS_PER_USER_PER_DAY cfg}"
    by (rule processQueue_starts)
next
  assume a: "\<not> int (countDownloadsToday (clock s) (db s)) \<ge> MAX_DOWNLOADS_PER_DAY cfg
        \<and> next_job s = Some job
        \<and> (\<forall>u \<in> set (getUsersForBook (bid job) (db s)). uid u \<in> set (rateLimitedUserIds s))"
  then have a1: "\<not> int (countDownloadsToday (clock s) (db s)) \<ge> MAX_DOWNLOADS_PER_DAY cfg"
    and a2: "next_job s = Some job"
    and a3: "\<forall>u \<in> set (getUsersForBook (bid job) (db s)). uid u \<in> set (rateLimitedUserIds s)"
    by simp_all
  show "\<exists>s'. processQueue_iteration cfg tempDir env s = Continue s'
             \<and> db s' = db s \<and> processed s' = processed s \<and> failed s' = failed s
             \<and> skippedBookIds s' = skippedBookIds s @ [bid job]
             \<and> skippedLimit s' = skippedLimit s + 1
             \<and> rateLimitedUserIds s' = rateLimitedUserIds s
             \<and> next_job s' = getNextPendingNotIn MAX_ATTEMPTS (skippedBookIds s @ [bid job]) (db s)
             \<and> (\<forall>j'. next_job s' = Some j'
                   \<longrightarrow> bid j' \<noteq> bid job \<and> status j' = Pending \<and> attempts j' < MAX_ATTEMPTS
                       \<and> (\<forall>b \<in> set (books (db s)).
                             status b = Pending \<and> attempts b < MAX_ATTEMPTS
                             \<and> bid b \<notin> set (skippedBookIds s @ [bid job])
                             \<longrightarrow> attempts j' \<le> attempts b))"
    by (rule iteration_skips_limited[OF a1 a2 a3])
next
  assume a: "\<not> int (countDownloadsToday (clock s) (db s)) \<ge> MAX_DOWNLOADS_PER_DAY cfg
        \<and> next_job s = Some job \<and> eligible_users s job \<noteq> []
        \<and> fst (try_attempt cfg tempDir (env (processed s)) job (eligible_users s job) s) \<noteq> None"
  then have a1: "\<not> int (countDownloadsToday (clock s) (db s)) \<ge> MAX_DOWNLOADS_PER_DAY cfg"
    and a2: "next_job s = Some job" and a3: "eligible_users s job \<noteq> []"
    and a4: "fst (try_attempt cfg tempDir (env (processed s)) job (eligible_users s job) s) \<noteq> None"
    by simp_all
  show "\<exists>s'. processQueue_iteration cfg tempDir env s = Continue s'
             \<and> rateLimitedUserIds s' = rateLimitedUserIds s
             \<and> skippedBookIds s' = skippedBookIds s \<and> processed s' = processed s + 1"
    by (rule iteration_failure_keeps_limits[where env = env, OF a1 a2 a3 a4])
next
  assume a: "\<not> int (countDownloadsToday (clock s) (db s)) \<ge> MAX_DOWNLOADS_PER_DAY cfg
        \<and> next_job s = Some job \<and> eligible_users s job \<noteq> []
        \<and> fst (try_attempt cfg tempDir (env (processed s)) job (eligible_users s job) s) = None"
  then have a1: "\<not> int (countDownloadsToday (clock s) (db s)) \<ge> MAX_DOWNLOADS_PER_DAY cfg"
    and a2: "next_job s = Some job" and a3: "eligible_users s job \<noteq> []"
    and a4: "fst (try_attempt cfg tempDir (env (processed s)) job (eligible_users s job) s) = None"
    by simp_all
  show "\<exists>s' t f. processQueue_iteration cfg tempDir env s = Continue s'
             \<and> db s' = markDownloaded t f (bid job) (incrementAttempts (clock s) (bid job) (db s))
             \<and> processed s' = processed s + 1
             \<and> set (rateLimitedUserIds s')
                 = set (rateLimitedUserIds s)
                   \<union> {uid u |u. u \<in> set (eligible_users s job)
                        \<and> int (countUserDownloadsToday t (uid u) (db s'))
                            \<ge> MAX_DOWNLOADS_PER_USER_PER_DAY cfg}"
    by (rule iteration_success_refreshes[where env = env, OF a1 a2 a3 a4])
qed

lemma copy_to_users_ok:
  "\<forall>u\<in>set us. \<not> fails (uid u) \<Longrightarrow> fls tempPath \<noteq> None
   \<Longrightarrow> fst (copy_to_users fails tempPath filename us fls)"
  by (induction us arbitrary: fls) (auto split: option.splits)

lemma try_attempt_succeeds:
  assumes "search_term job \<noteq> []" and "search_result e = Some url"
    and "downloadBook tempDir (download e) url job (files s) = (Inr (tempPath, ext), fls1)"
    and "fst (copy_to_users (copy_fails e) tempPath (safe_title job @ ext) us fls1)"
  shows "fst (try_attempt cfg tempDir e job us s) = None"
proof -
  from assms(4) obtain fls2 where
    c: "copy_to_users (copy_fails e) tempPath (safe_title job @ ext) us fls1 = (True, fls2)"
    by (cases "copy_to_users (copy_fails e) tempPath (safe_title job @ ext) us fls1") auto
  show ?thesis
    using assms(1-3) c by (simp add: try_attempt_def Let_def)
qed

lemma downloadBook_direct_ok:
  assumes "\<not> str_includes url ''/fast_download/''" and "http_result denv = Some (ext, Some nbytes)"
    and "\<not> nbytes < 1024"
  shows "fst (downloadBook tempDir denv url job fls) = Inr (join tempDir (safe_title job @ ext), ext)"
  using assms by (simp add: downloadBook_def Let_def)

lemma try_attempt_all_fine:
  assumes st: "search_term job \<noteq> []" and sr: "search_result e = Some url"
    and dl: "fst (downloadBook tempDir (download e) url job (files s)) = Inr (tempPath, ext)"
    and cp: "\<forall>u\<in>set us. \<not> copy_fails e (uid u)"
  shows "fst (try_attempt cfg tempDir e job us s) = None"
proof -
  from dl obtain fls1 where
    d: "downloadBook tempDir (download e) url job (files s) = (Inr (tempPath, ext), fls1)"
    by (cases "downloadBook tempDir (download e) url job (files s)") auto
  from downloadBook_success_size[OF d] have f: "fls1 tempPath \<noteq> None" by auto
  have "fst (copy_to_users (copy_fails e) tempPath (safe_title job @ ext) us fls1)"
    using cp f by (rule copy_to_users_ok)
  from try_attempt_succeeds[OF st sr d this] show ?thesis .
qed

lemma env_ok_attempt:
  assumes "search_term job \<noteq> []"
  shows "fst (try_attempt cfg tmp_dir (env_ok k) job us s) = None"
proof -
  have sr: "search_result (env_ok k) = Some detail_url"
    and h: "http_result (download (env_ok k)) = Some (''.epub'', Some 5000000)"
    and cp: "\<forall>u\<in>set us. \<not> copy_fails (env_ok k) (uid u)"
    by (simp_all add: env_ok_def)
  have n: "\<not> (5000000::nat) < 1024" by simp
  note d = downloadBook_direct_ok[OF detail_url_direct h n, of tmp_dir job "files s"]
  from try_attempt_all_fine[OF assms sr d cp] show ?thesis .
qed

lemma try_attempt_None_clock:
  assumes "try_attempt cfg tempDir e job us s = (None, s')"
  shows "clock s' = clock s + elapsed e"
  using assms
  by (auto simp: try_attempt_def Let_def split: if_splits option.splits prod.splits sum.splits bool.splits)

text \<open>Facts about the capped library under the strict configuration.\<close>

lemma capped_library_counts:
  "countDownloadsToday 1000 capped_library = 1"
  "countUserDownloadsToday 1000 1 capped_library = 1"
  by (simp_all add: countDownloadsToday_def countUserDownloadsToday_def capped_library_def
        downloaded_on_done_book downloaded_on_def emma_def new_book_def done_book_def)

lemma capped_library_users: "users capped_library = [alice]" "uid alice = 1"
  by (simp_all add: capped_library_def alice_def)

lemma capped_state:
  "clock ((initial_state 1000 Map.empty capped_library)\<lparr>rateLimitedUserIds := [1]\<rparr>) = 1000"
  "db ((initial_state 1000 Map.empty capped_library)\<lparr>rateLimitedUserIds := [1]\<rparr>) = capped_library"
  "processed ((initial_state 1000 Map.empty capped_library)\<lparr>rateLimitedUserIds := [1]\<rparr>) = 0"
  "skippedBookIds ((initial_state 1000 Map.empty capped_library)\<lparr>rateLimitedUserIds := [1]\<rparr>) = []"
  "rateLimitedUserIds ((initial_state 1000 Map.empty capped_library)\<lparr>rateLimitedUserIds := [1]\<rparr>) = [1]"
  by (simp_all add: initial_state_def)

lemma capped_next_job:
  "next_job ((initial_state 1000 Map.empty capped_library)\<lparr>rateLimitedUserIds := [1]\<rparr>) = Some emma"
  by (simp add: next_job_def initial_state_def getNextPending_def capped_library_def done_book_def
        emma_def new_book_def MAX_ATTEMPTS_def)

lemma capped_linked: "getUsersForBook (bid emma) capped_library = [alice]" "bid emma = 2"
  by (simp_all add: getUsersForBook_def capped_library_def emma_def new_book_def alice_def)

lemma capped_nothing_else:
  "getNextPendingNotIn MAX_ATTEMPTS ([] @ [bid emma]) capped_library = None"
  by (simp add: getNextPendingNotIn_def capped_library_def done_book_def emma_def new_book_def
        MAX_ATTEMPTS_def)

lemma library_strict_cap:
  "\<not> int (countDownloadsToday (clock (initial_state 1000 Map.empty library))
            (db (initial_state 1000 Map.empty library))) \<ge> MAX_DOWNLOADS_PER_DAY strict_config"
  by (simp add: library_state library_count strict_config_def)

lemma library_user_count_after:
  "countUserDownloadsToday t 1 (markDownloaded t f 1 (incrementAttempts 1000 1 library)) = 1"
  by (simp add: countUserDownloadsToday_def markDownloaded_def incrementAttempts_def
        update_where_id_def library_def dune_def new_book_def downloaded_on_def)


text \<open>
  Under one download per user and day: Alice has had hers in \<open>capped_library\<close>, so
  the cycle starts with her in the set, her pending book is skipped without an
  attempt and nothing else is left to select. A failed item leaves the set empty.
  In \<open>library\<close> the download of her first book of the day puts her in the set.
\<close>

theorem rate_limited_book_is_skipped_witness:
  "\<not> int (countDownloadsToday 1000 capped_library) \<ge> MAX_DOWNLOADS_PER_DAY strict_config
   \<and> (\<exists>s1. snd (processQueue strict_config tmp_dir env_ok 1000 Map.empty capped_library)
               = processQueue_loop strict_config tmp_dir env_ok s1
           \<and> db s1 = capped_library \<and> set (rateLimitedUserIds s1) = {1})
   \<and> next_job ((initial_state 1000 Map.empty capped_library)\<lparr>rateLimitedUserIds := [1]\<rparr>)
       = Some emma
   \<and> getUsersForBook (bid emma) capped_library = [alice]
   \<and> (\<exists>s'. processQueue_iteration strict_config tmp_dir env_ok
               ((initial_state 1000 Map.empty capped_library)\<lparr>rateLimitedUserIds := [1]\<rparr>)
             = Continue s'
           \<and> db s' = capped_library \<and> processed s' = 0 \<and> skippedBookIds s' = [2]
           \<and> next_job s' = None)
   \<and> (\<exists>s'. processQueue_iteration default_config tmp_dir env_small_file
               (initial_state 1000 Map.empty last_chance) = Continue s'
           \<and> rateLimitedUserIds s' = [])
   \<and> (\<exists>s'. processQueue_iteration strict_config tmp_dir env_ok
               (initial_state 1000 Map.empty library) = Continue s'
           \<and> set (rateLimitedUserIds s') = {1})"
proof -
  let ?sc = "(initial_state 1000 Map.empty capped_library)\<lparr>rateLimitedUserIds := [1]\<rparr>"
  let ?sl = "initial_state 1000 Map.empty library"
  let ?sf = "initial_state 1000 Map.empty last_chance"
  have c0: "\<not> int (countDownloadsToday 1000 capped_library) \<ge> MAX_DOWNLOADS_PER_DAY strict_config"
    by (simp add: capped_library_counts strict_config_def)
  have pu: "MAX_DOWNLOADS_PER_USER_PER_DAY strict_config = 1" by (simp add: strict_config_def)
  \<comment> \<open>the start of the cycle\<close>
  from rate_limited_book_is_skipped[where now = 1000 and st = capped_library
         and cfg = strict_config and tempDir = tmp_dir and env = env_ok and fls = Map.empty,
         THEN conjunct1] c0
  obtain s1 where s1: "snd (processQueue strict_config tmp_dir env_ok 1000 Map.empty capped_library)
               = processQueue_loop strict_config tmp_dir env_ok s1"
    "db s1 = capped_library"
    "set (rateLimitedUserIds s1)
       = {uid u |u. u \<in> set (users capped_library)
            \<and> int (countUserDownloadsToday 1000 (uid u) capped_library)
                \<ge> MAX_DOWNLOADS_PER_USER_PER_DAY strict_config}"
    by blast
  have "{uid u |u. u \<in> set (users capped_library)
            \<and> int (countUserDownloadsToday 1000 (uid u) capped_library)
                \<ge> MAX_DOWNLOADS_PER_USER_PER_DAY strict_config} = {1}"
    by (auto simp: capped_library_users capped_library_counts capped_library_counts[unfolded One_nat_def] pu)
  with s1 have 1: "\<exists>s1. snd (processQueue strict_config tmp_dir env_ok 1000 Map.empty capped_library)
               = processQueue_loop strict_config tmp_dir env_ok s1
           \<and> db s1 = capped_library \<and> set (rateLimitedUserIds s1) = {1}"
    by auto
  \<comment> \<open>the skip\<close>
  have cc: "\<not> int (countDownloadsToday (clock ?sc) (db ?sc)) \<ge> MAX_DOWNLOADS_PER_DAY strict_config"
    using c0 by (simp add: initial_state_def)
  have e1: "db ?sc = capped_library" and e2: "rateLimitedUserIds ?sc = [1]"
    by (simp_all add: initial_state_def)
  have lim: "\<forall>u \<in> set (getUsersForBook (bid emma) (db ?sc)). uid u \<in> set (rateLimitedUserIds ?sc)"
    unfolding e1 e2 capped_linked(1) by (simp add: capped_library_users(2))
  from rate_limited_book_is_skipped[where s = ?sc and job = emma
         and cfg = strict_config and tempDir = tmp_dir and env = env_ok,
         THEN conjunct2, THEN conjunct1] cc capped_next_job lim
  obtain s' where s': "processQueue_iteration strict_config tmp_dir env_ok ?sc = Continue s'"
    "db s' = db ?sc" "processed s' = processed ?sc"
    "skippedBookIds s' = skippedBookIds ?sc @ [bid emma]"
    "next_job s' = getNextPendingNotIn MAX_ATTEMPTS (skippedBookIds ?sc @ [bid emma]) (db ?sc)"
    by blast
  from s'(5) have "next_job s' = None"
    by (simp only: capped_state capped_nothing_else)
  with s' have 2: "\<exists>s'. processQueue_iteration strict_config tmp_dir env_ok ?sc = Continue s'
           \<and> db s' = capped_library \<and> processed s' = 0 \<and> skippedBookIds s' = [2]
           \<and> next_job s' = None"
    by (auto simp: initial_state_def capped_linked)
  \<comment> \<open>a failed item\<close>
  have elf: "eligible_users ?sf last_dune \<noteq> []" by (simp add: last_chance_eligible)
  have rlf: "rateLimitedUserIds ?sf = []" by (simp add: initial_state_def)
  from rate_limited_book_is_skipped[where s = ?sf and job = last_dune
         and cfg = default_config and tempDir = tmp_dir and env = env_small_file,
         THEN conjunct2, THEN conjunct2, THEN conjunct1]
    last_chance_cap last_chance_next_job elf last_chance_attempt_fails
  have 3: "\<exists>s'. processQueue_iteration default_config tmp_dir env_small_file ?sf = Continue s'
           \<and> rateLimitedUserIds s' = []"
    by (auto simp: rlf)
  \<comment> \<open>a successful item\<close>
  have ell: "eligible_users ?sl dune \<noteq> []" by (simp add: library_eligible)
  have ok: "fst (try_attempt strict_config tmp_dir (env_ok (processed ?sl)) dune
                  (eligible_users ?sl dune) ?sl) = None"
    by (rule env_ok_attempt[OF dune_search_term])
  from rate_limited_book_is_skipped[where s = ?sl and job = dune
         and cfg = strict_config and tempDir = tmp_dir and env = env_ok,
         THEN conjunct2, THEN conjunct2, THEN conjunct2]
    library_strict_cap library_next_job ell ok
  obtain s'' t f where s'': "processQueue_iteration strict_config tmp_dir env_ok ?sl = Continue s''"
    "db s'' = markDownloaded t f (bid dune) (incrementAttempts (clock ?sl) (bid dune) (db ?sl))"
    "set (rateLimitedUserIds s'')
       = set (rateLimitedUserIds ?sl)
         \<union> {uid u |u. u \<in> set (eligible_users ?sl dune)
              \<and> int (countUserDownloadsToday t (uid u) (db s''))
                  \<ge> MAX_DOWNLOADS_PER_USER_PER_DAY strict_config}"
    by blast
  from s''(2) have dbs: "db s'' = markDownloaded t f 1 (incrementAttempts 1000 1 library)"
    by (simp add: library_state dune_attempts)
  have "{uid u |u. u \<in> set (eligible_users ?sl dune)
              \<and> int (countUserDownloadsToday t (uid u) (db s''))
                  \<ge> MAX_DOWNLOADS_PER_USER_PER_DAY strict_config} = {1}"
    by (auto simp: library_eligible capped_library_users dbs library_user_count_after
          library_user_count_after[unfolded One_nat_def] pu)
  with s''(1,3) have 4: "\<exists>s'. processQueue_iteration strict_config tmp_dir env_ok ?sl = Continue s'
           \<and> set (rateLimitedUserIds s') = {1}"
    by (auto simp: library_state)
  from c0 1 capped_next_job capped_linked(1) 2 3 4 show ?thesis by blast
qed

section \<open>The global daily cap around a download\<close>

lemma cycle_with_one_success:
  assumes c0: "\<not> int (countDownloadsToday now st) \<ge> MAX_DOWNLOADS_PER_DAY cfg"
    and job: "getNextPending MAX_ATTEMPTS st = Some job"
    and el: "eligible_users ((initial_state now fls st)
               \<lparr>rateLimitedUserIds := foldl (limit_check cfg now st) [] (getUsers st)\<rparr>) job \<noteq> []"
    and ok: "\<And>us s. fst (try_attempt cfg tempDir (env 0) job us s) = None"
    and c1: "\<And>f. int (countDownloadsToday (now + elapsed (env 0) + QUEUE_COOLDOWN_MS div 1000)
                     (markDownloaded (now + elapsed (env 0)) f (bid job)
                        (incrementAttempts now (bid job) st)))
                 \<ge> MAX_DOWNLOADS_PER_DAY cfg"
  shows "\<exists>f. db (snd (processQueue cfg tempDir env now fls st))
               = markDownloaded (now + elapsed (env 0)) f (bid job)
                   (incrementAttempts now (bid job) st)
             \<and> succeeded (snd (processQueue cfg tempDir env now fls st)) = 1
             \<and> processed (snd (processQueue cfg tempDir env now fls st)) = 1"
proof -
  let ?s1 = "(initial_state now fls st)
               \<lparr>rateLimitedUserIds := foldl (limit_check cfg now st) [] (getUsers st)\<rparr>"
  have s1: "db ?s1 = st" "clock ?s1 = now" "processed ?s1 = 0" "skippedBookIds ?s1 = []"
    "succeeded ?s1 = 0"
    by (simp_all add: initial_state_def)
  have nj: "next_job ?s1 = Some job" by (simp add: next_job_def initial_state_def job)
  have cap: "\<not> int (countDownloadsToday (clock ?s1) (db ?s1)) \<ge> MAX_DOWNLOADS_PER_DAY cfg"
    using c0 by (simp add: initial_state_def)
  from ok[of "eligible_users ?s1 job" ?s1] obtain sa where
    t: "try_attempt cfg tempDir (env (processed ?s1)) job (eligible_users ?s1 job) ?s1 = (None, sa)"
    unfolding s1(3)
    by (cases "try_attempt cfg tempDir (env 0) job (eligible_users ?s1 job) ?s1") auto
  let ?s' = "sa\<lparr>processed := processed sa + 1, clock := clock sa + QUEUE_COOLDOWN_MS div 1000\<rparr>"
  have it: "processQueue_iteration cfg tempDir env ?s1 = Continue ?s'"
    using iteration_processes[where env = env, OF cap nj el t] by (simp add: Let_def)
  from try_attempt_None(1)[OF t] obtain f where
    f: "db sa = markDownloaded (clock sa) f (bid job) (incrementAttempts (clock ?s1) (bid job) (db ?s1))"
    by blast
  have ck: "clock sa = now + elapsed (env 0)"
    using try_attempt_None_clock[OF t] by (simp add: initial_state_def)
  have su: "succeeded sa = 1" "processed sa = 0"
    using try_attempt_None(3,5)[OF t] by (simp_all add: initial_state_def)
  have dba: "db sa = markDownloaded (now + elapsed (env 0)) f (bid job)
                       (incrementAttempts now (bid job) st)"
    using f by (simp add: ck initial_state_def)
  then have dbs: "db ?s' = markDownloaded (now + elapsed (env 0)) f (bid job)
                        (incrementAttempts now (bid job) st)"
    by simp
  have "int (countDownloadsToday (clock ?s') (db ?s')) \<ge> MAX_DOWNLOADS_PER_DAY cfg"
    using c1[of f] by (simp add: dba ck)
  from iteration_cap_reached[OF this]
  have br: "processQueue_iteration cfg tempDir env ?s' = Break ?s'" .
  have "processQueue_loop cfg tempDir env ?s1 = processQueue_loop cfg tempDir env ?s'"
    by (subst processQueue_loop.simps) (simp only: it iteration.case)
  also have "\<dots> = ?s'"
    by (subst processQueue_loop.simps) (simp only: br iteration.case)
  finally have lp: "processQueue_loop cfg tempDir env ?s1 = ?s'" .
  have "snd (processQueue cfg tempDir env now fls st) = ?s'"
    using c0 lp by (simp add: processQueue_def Let_def)
  with dba su show ?thesis by (intro exI[of _ f]) simp
qed


lemma env_ok_times: "elapsed (env_ok k) = 30" "QUEUE_COOLDOWN_MS div 1000 = 5"
  by (simp_all add: env_ok_def QUEUE_COOLDOWN_MS_def)

lemma emma_row: "bid emma = 2" "status emma = Pending" "attempts emma = 0"
  by (simp_all add: emma_def new_book_def)

lemma emma_search_term: "search_term emma \<noteq> []"
  by code_simp

text \<open>Facts about the library of two pending books under a global cap of one.\<close>

lemma two_book_start:
  "\<not> int (countDownloadsToday 1000 two_book_library) \<ge> MAX_DOWNLOADS_PER_DAY cap_one"
  "getNextPending MAX_ATTEMPTS two_book_library = Some dune"
  by (simp_all add: countDownloadsToday_def getNextPending_def two_book_library_def
        downloaded_on_def dune_def emma_def new_book_def cap_one_def MAX_ATTEMPTS_def)

lemma two_book_eligible:
  "eligible_users ((initial_state 1000 Map.empty two_book_library)
     \<lparr>rateLimitedUserIds := foldl (limit_check cap_one 1000 two_book_library) []
                                 (getUsers two_book_library)\<rparr>) dune \<noteq> []"
  by (simp add: eligible_users_def initial_state_def getUsers_def getUsersForBook_def
        limit_check_def countUserDownloadsToday_def two_book_library_def downloaded_on_def
        dune_def emma_def new_book_def alice_def cap_one_def Let_def)

lemma two_book_after:
  "map status (books (markDownloaded t f 1 (incrementAttempts 1000 1 two_book_library)))
   = [Downloaded, Pending]"
  "countDownloadsToday t (markDownloaded t f 1 (incrementAttempts 1000 1 two_book_library)) = 1"
  by (simp_all add: countDownloadsToday_def markDownloaded_def incrementAttempts_def
        update_where_id_def two_book_library_def downloaded_on_def dune_def emma_def new_book_def)

lemma two_book_cap_after:
  "int (countDownloadsToday (1000 + elapsed (env_ok 0) + QUEUE_COOLDOWN_MS div 1000)
          (markDownloaded (1000 + elapsed (env_ok 0)) f (bid dune)
             (incrementAttempts 1000 (bid dune) two_book_library)))
   \<ge> MAX_DOWNLOADS_PER_DAY cap_one"
  by (simp add: env_ok_times countDownloadsToday_def markDownloaded_def incrementAttempts_def
        update_where_id_def two_book_library_def downloaded_on_def dune_def emma_def new_book_def
        cap_one_def date_def)

lemma two_book_within_cap: "within_cap (MAX_DOWNLOADS_PER_DAY cap_one) 1000 two_book_library"
  by (simp add: within_cap_def countDownloadsToday_def two_book_library_def downloaded_on_def
        dune_def emma_def new_book_def cap_one_def)

lemma two_book_cycle:
  "\<exists>f. db (snd (processQueue cap_one tmp_dir env_ok 1000 Map.empty two_book_library))
          = markDownloaded 1030 f 1 (incrementAttempts 1000 1 two_book_library)
        \<and> succeeded (snd (processQueue cap_one tmp_dir env_ok 1000 Map.empty two_book_library)) = 1"
  using cycle_with_one_success[where env = env_ok and tempDir = tmp_dir and fls = Map.empty,
          OF two_book_start two_book_eligible env_ok_attempt[OF dune_search_term]
             two_book_cap_after]
  by (auto simp: env_ok_times dune_attempts)

text \<open>Facts about the library around midnight UTC under a global cap of one.\<close>

lemma midnight_start:
  "\<not> int (countDownloadsToday 86430 midnight_library) \<ge> MAX_DOWNLOADS_PER_DAY cap_one"
  "getNextPending MAX_ATTEMPTS midnight_library = Some emma"
  by (simp_all add: countDownloadsToday_def getNextPending_def midnight_library_def
        downloaded_on_def done_late_def done_book_def emma_def new_book_def cap_one_def
        MAX_ATTEMPTS_def date_def)

lemma midnight_eligible:
  "eligible_users ((initial_state 86430 Map.empty midnight_library)
     \<lparr>rateLimitedUserIds := foldl (limit_check cap_one 86430 midnight_library) []
                                 (getUsers midnight_library)\<rparr>) emma \<noteq> []"
  by (simp add: eligible_users_def initial_state_def getUsers_def getUsersForBook_def
        limit_check_def countUserDownloadsToday_def midnight_library_def downloaded_on_def
        done_late_def done_book_def emma_def new_book_def alice_def cap_one_def Let_def date_def)

lemma midnight_after:
  "map status (books (markDownloaded 86460 f 2 (incrementAttempts 86430 2 midnight_library)))
   = [Downloaded, Downloaded]"
  "map downloaded_at (books (markDownloaded 86460 f 2 (incrementAttempts 86430 2 midnight_library)))
   = [Some 86370, Some 86460]"
  by (simp_all add: markDownloaded_def incrementAttempts_def update_where_id_def
        midnight_library_def done_late_def done_book_def emma_def new_book_def)

lemma midnight_cap_after:
  "int (countDownloadsToday (86430 + elapsed (env_ok 0) + QUEUE_COOLDOWN_MS div 1000)
          (markDownloaded (86430 + elapsed (env_ok 0)) f (bid emma)
             (incrementAttempts 86430 (bid emma) midnight_library)))
   \<ge> MAX_DOWNLOADS_PER_DAY cap_one"
  by (simp add: env_ok_times countDownloadsToday_def markDownloaded_def incrementAttempts_def
        update_where_id_def midnight_library_def downloaded_on_def done_late_def done_book_def
        emma_def new_book_def cap_one_def date_def)

lemma midnight_cycle:
  "\<exists>f. db (snd (processQueue cap_one tmp_dir env_ok 86430 Map.empty midnight_library))
          = markDownloaded 86460 f 2 (incrementAttempts 86430 2 midnight_library)"
  using cycle_with_one_success[where env = env_ok and tempDir = tmp_dir and fls = Map.empty,
          OF midnight_start midnight_eligible env_ok_attempt[OF emma_search_term]
             midnight_cap_after]
  by (auto simp: env_ok_times emma_row)

text \<open>
  With the cap at 50 and 50 books downloaded today, a cycle makes no attempt and the
  store is untouched. With the cap at 1 and two pending books, a cycle downloads the
  first, finds the cap reached at the head of the next iteration and leaves the
  second pending: the day counts one download, the cap.
\<close>

theorem daily_cap_respected_witness:
  "int (countDownloadsToday 1000 full_library) \<ge> MAX_DOWNLOADS_PER_DAY default_config
   \<and> fst (processQueue default_config tmp_dir env_ok 1000 Map.empty full_library) = None
   \<and> db (snd (processQueue default_config tmp_dir env_ok 1000 Map.empty full_library))
       = full_library
   \<and> processed (snd (processQueue default_config tmp_dir env_ok 1000 Map.empty full_library)) = 0
   \<and> processQueue_iteration default_config tmp_dir env_ok
        (initial_state 1000 Map.empty full_library)
       = Break (initial_state 1000 Map.empty full_library)
   \<and> within_cap (MAX_DOWNLOADS_PER_DAY cap_one) 1000 two_book_library
   \<and> map status (books (db (snd (processQueue cap_one tmp_dir env_ok 1000 Map.empty
                                  two_book_library)))) = [Downloaded, Pending]
   \<and> succeeded (snd (processQueue cap_one tmp_dir env_ok 1000 Map.empty two_book_library)) = 1
   \<and> countDownloadsToday 1030
        (db (snd (processQueue cap_one tmp_dir env_ok 1000 Map.empty two_book_library))) = 1
   \<and> int (countDownloadsToday 1030
            (db (snd (processQueue cap_one tmp_dir env_ok 1000 Map.empty two_book_library))))
       \<le> MAX_DOWNLOADS_PER_DAY cap_one"
proof -
  have f: "int (countDownloadsToday 1000 full_library) \<ge> MAX_DOWNLOADS_PER_DAY default_config"
    by (simp add: full_library_count default_config_def)
  have f': "int (countDownloadsToday (clock (initial_state 1000 Map.empty full_library))
                   (db (initial_state 1000 Map.empty full_library)))
            \<ge> MAX_DOWNLOADS_PER_DAY default_config"
    using f by (simp add: initial_state_def)
  note th1 = daily_cap_respected[where now = 1000 and st = full_library and cfg = default_config
      and tempDir = tmp_dir and env = env_ok and fls = Map.empty
      and s = "initial_state 1000 Map.empty full_library"]
  from th1 f f'
  have 1: "fst (processQueue default_config tmp_dir env_ok 1000 Map.empty full_library) = None"
    "db (snd (processQueue default_config tmp_dir env_ok 1000 Map.empty full_library))
       = full_library"
    "processed (snd (processQueue default_config tmp_dir env_ok 1000 Map.empty full_library)) = 0"
    "processQueue_iteration default_config tmp_dir env_ok
        (initial_state 1000 Map.empty full_library)
       = Break (initial_state 1000 Map.empty full_library)"
    by simp_all
  note th2 = daily_cap_respected[where now = 1000 and st = two_book_library and cfg = cap_one
      and tempDir = tmp_dir and env = env_ok and fls = Map.empty]
  from th2 two_book_within_cap
  have 2: "int (countDownloadsToday 1030
            (db (snd (processQueue cap_one tmp_dir env_ok 1000 Map.empty two_book_library))))
        \<le> MAX_DOWNLOADS_PER_DAY cap_one"
    by blast
  from two_book_cycle obtain fn where
    c: "db (snd (processQueue cap_one tmp_dir env_ok 1000 Map.empty two_book_library))
          = markDownloaded 1030 fn 1 (incrementAttempts 1000 1 two_book_library)"
    "succeeded (snd (processQueue cap_one tmp_dir env_ok 1000 Map.empty two_book_library)) = 1"
    by blast
  have 3: "map status (books (db (snd (processQueue cap_one tmp_dir env_ok 1000 Map.empty
                                  two_book_library)))) = [Downloaded, Pending]"
    "countDownloadsToday 1030
        (db (snd (processQueue cap_one tmp_dir env_ok 1000 Map.empty two_book_library))) = 1"
    by (simp_all only: c(1) two_book_after)
  from f 1 two_book_within_cap 3 c(2) 2 show ?thesis by blast
qed

text \<open>
  C3, as the specification words it, counts by the calendar day of the process's
  time zone. One hour east of UTC and with a cap of 1: a book was downloaded at second
  86370 (00:59:30 local time) and a cycle starts at second 86430 (01:00:30 local time
  of the same day), with the count of that local day at the cap. The cycle still makes
  an attempt and marks a second book downloaded at second 86460, on the same local
  day: two downloads on one calendar day under a cap of 1.
\<close>

theorem daily_cap_local_day_counterexample:
  "MAX_DOWNLOADS_PER_DAY cap_one = 1
   \<and> map status (books midnight_library) = [Downloaded, Pending]
   \<and> map downloaded_at (books midnight_library) = [Some 86370, None]
   \<and> local_date 3600 86430 = local_date 3600 86370
   \<and> map status (books (db (snd (processQueue cap_one tmp_dir env_ok 86430 Map.empty
                                  midnight_library)))) = [Downloaded, Downloaded]
   \<and> map downloaded_at (books (db (snd (processQueue cap_one tmp_dir env_ok 86430 Map.empty
                                         midnight_library)))) = [Some 86370, Some 86460]
   \<and> local_date 3600 86460 = local_date 3600 86370"
proof -
  have 1: "MAX_DOWNLOADS_PER_DAY cap_one = 1" by (simp add: cap_one_def)
  have 2: "map status (books midnight_library) = [Downloaded, Pending]"
    "map downloaded_at (books midnight_library) = [Some 86370, None]"
    by (simp_all add: midnight_library_def done_late_def done_book_def emma_def new_book_def)
  have 3: "local_date 3600 86430 = local_date 3600 86370"
    "local_date 3600 86460 = local_date 3600 86370"
    by (simp_all add: local_date_def)
  from midnight_cycle obtain fn where
    c: "db (snd (processQueue cap_one tmp_dir env_ok 86430 Map.empty midnight_library))
          = markDownloaded 86460 fn 2 (incrementAttempts 86430 2 midnight_library)"
    by blast
  have 4: "map status (books (db (snd (processQueue cap_one tmp_dir env_ok 86430 Map.empty
                                  midnight_library)))) = [Downloaded, Downloaded]"
    "map downloaded_at (books (db (snd (processQueue cap_one tmp_dir env_ok 86430 Map.empty
                                         midnight_library)))) = [Some 86370, Some 86460]"
    by (simp_all only: c midnight_after)
  from 1 2 3 4 show ?thesis by blast
qed

end
